theory Spec2Isabelle
  imports Main
begin

section \<open>The script \<open>main.py\<close>: a connectivity probe, a download loop, a cleanup\<close>

text \<open>
  The script is glue around three kinds of outside calls: the video-extraction library
  (\<open>extract_info\<close>, \<open>download\<close>), the filesystem (\<open>mkdtemp\<close>, \<open>listdir\<close>,
  \<open>getsize\<close>, \<open>remove\<close>, \<open>exists\<close>, \<open>rmtree\<close>) and \<open>time.sleep\<close>. The embedding
  threads an explicit world through every statement. The world holds the one directory
  the script owns and a chronological trace of what the script did: every outside call,
  every log record, and the entry of each method of the script.

  What the outside answers is not decided by the script; it is a parameter, the
  environment \<open>env\<close>, whose fields may look at the whole world, hence at the whole
  history of the run.
\<close>

subsection \<open>Exceptions\<close>

text \<open>
  Python separates \<open>Exception\<close> (what \<open>except Exception\<close> catches) from
  \<open>KeyboardInterrupt\<close>, which only \<open>except KeyboardInterrupt\<close> and a bare \<open>except:\<close>
  catch. The string is the message of the exception.
\<close>

datatype exc = Exception string | KeyboardInterrupt

subsection \<open>The world\<close>

type_synonym url = string
type_synonym path = string

datatype level = INFO | WARNING | ERROR

text \<open>Options handed to \<open>yt_dlp.YoutubeDL\<close>: the probe's quiet options, or the download
  options with their output template and format selector.\<close>

datatype ydl_opts = Quiet_opts | Download_opts path string

datatype routine = Init | Test_youtube_access | Download_video url | Cleanup

text \<open>The metadata record of the library; every field may be absent.\<close>

record info =
  title :: "string option"
  duration :: "nat option"
  uploader :: "string option"
  view_count :: "nat option"

text \<open>
  A log record keeps its level and the text of the message as the source writes it,
  without the emoji and the inner quotes, and with the placeholders of the f-string left
  unexpanded. The
  calls whose answer the environment decides are recorded with that answer: what
  \<open>mkdtemp\<close>, \<open>extract_info\<close> and \<open>getsize\<close> returned or raised, and what \<open>download\<close>,
  \<open>remove\<close>, \<open>rmtree\<close> and \<open>sleep\<close> raised, \<open>None\<close> when they returned. \<open>Invoke\<close> marks the entry
  of a method of the script and \<open>Probe_returned\<close> the value \<open>test_youtube_access\<close>
  returns.
\<close>

datatype event =
    Log level string
  | Invoke routine
  | Probe_returned bool
  | Mkdtemp "string + path"
  | Extract_info ydl_opts url "exc + info option"
  | Download ydl_opts url "exc option"
  | Listdir path
  | Getsize path "exc + nat"
  | Remove path "string option"
  | Exists path
  | Rmtree path "exc option"
  | Sleep nat "exc option"

text \<open>
  The filesystem of the model is the temporary directory alone: \<open>fs_root\<close> is its path
  and \<open>fs_entries\<close> its listing in the order \<open>os.listdir\<close> reports it, \<open>None\<close> when the
  directory does not exist.
\<close>

record world =
  fs_root :: path
  fs_entries :: "string list option"
  trace :: "event list"

definition initial_world :: world where
  "initial_world = \<lparr>fs_root = [], fs_entries = None, trace = []\<rparr>"

text \<open>
  The environment. \<open>mkdtemp\<close> and \<open>remove\<close> fail with an \<open>OSError\<close>, an
  \<open>Exception\<close>, given here by its message. The library, the sleep, \<open>getsize\<close> and
  \<open>rmtree\<close> may raise anything, an interrupt included: \<open>getsize\<close> can fail on a name
  that the listing reports (a dangling link), and the recursive \<open>rmtree\<close> can be
  interrupted. \<open>extract_info\<close> may return Python's \<open>None\<close>. \<open>download_writes\<close> is the
  listing of the directory once \<open>download\<close> is over, whether it returned or raised. A
  failed \<open>rmtree\<close> says what it left behind.
\<close>

record env =
  mkdtemp_result :: "string + path"
  extract_info_result :: "world \<Rightarrow> ydl_opts \<Rightarrow> url \<Rightarrow> exc + info option"
  download_result :: "world \<Rightarrow> ydl_opts \<Rightarrow> url \<Rightarrow> exc option"
  download_writes :: "world \<Rightarrow> ydl_opts \<Rightarrow> url \<Rightarrow> string list option"
  getsize_result :: "world \<Rightarrow> path \<Rightarrow> exc + nat"
  remove_fails :: "world \<Rightarrow> path \<Rightarrow> string option"
  rmtree_fails :: "world \<Rightarrow> path \<Rightarrow> (exc \<times> string list) option"
  sleep_result :: "world \<Rightarrow> nat \<Rightarrow> exc option"

subsection \<open>Statements: state passing with exceptions\<close>

type_synonym 'a io = "world \<Rightarrow> (exc + 'a) \<times> world"

definition return_io :: "'a \<Rightarrow> 'a io" where
  "return_io x w = (Inr x, w)"

definition raise_io :: "exc \<Rightarrow> 'a io" where
  "raise_io e w = (Inl e, w)"

definition bind_io :: "'a io \<Rightarrow> ('a \<Rightarrow> 'b io) \<Rightarrow> 'b io" where
  "bind_io m f w = (case m w of (Inl e, w') \<Rightarrow> (Inl e, w') | (Inr x, w') \<Rightarrow> f x w')"

definition then_io :: "unit io \<Rightarrow> 'b io \<Rightarrow> 'b io" where
  "then_io m k = bind_io m (\<lambda>_. k)"

text \<open>\<open>try: body except Exception as e: handler\<close>; an interrupt passes through.\<close>

definition try_except_Exception :: "'a io \<Rightarrow> (string \<Rightarrow> 'a io) \<Rightarrow> 'a io" where
  "try_except_Exception body handler w =
     (case body w of
        (Inl (Exception m), w') \<Rightarrow> handler m w'
      | (Inl KeyboardInterrupt, w') \<Rightarrow> (Inl KeyboardInterrupt, w')
      | (Inr x, w') \<Rightarrow> (Inr x, w'))"

text \<open>\<open>try: body except: handler\<close>, the bare form, which catches everything.\<close>

definition try_except_all :: "'a io \<Rightarrow> 'a io \<Rightarrow> 'a io" where
  "try_except_all body handler w =
     (case body w of (Inl e, w') \<Rightarrow> handler w' | (Inr x, w') \<Rightarrow> (Inr x, w'))"

definition emit :: "event \<Rightarrow> unit io" where
  "emit ev w = (Inr (), w\<lparr>trace := trace w @ [ev]\<rparr>)"

definition logger :: "level \<Rightarrow> string \<Rightarrow> unit io" where
  "logger l msg = emit (Log l msg)"

subsection \<open>The outside calls\<close>

text \<open>\<open>posixpath.join\<close> on two components.\<close>

definition os_path_join :: "path \<Rightarrow> string \<Rightarrow> path" where
  "os_path_join a b =
     (if b \<noteq> [] \<and> hd b = CHR ''/'' then b
      else if a = [] \<or> last a = CHR ''/'' then a @ b
      else a @ ''/'' @ b)"

definition startswith_dot :: "string \<Rightarrow> bool" where
  "startswith_dot s = (case s of [] \<Rightarrow> False | c # _ \<Rightarrow> c = CHR ''.'')"

text \<open>The entries of the directory that a path names.\<close>

definition is_entry :: "world \<Rightarrow> path \<Rightarrow> bool" where
  "is_entry w p =
     (case fs_entries w of None \<Rightarrow> False
      | Some names \<Rightarrow> list_ex (\<lambda>f. os_path_join (fs_root w) f = p) names)"

definition path_exists :: "world \<Rightarrow> path \<Rightarrow> bool" where
  "path_exists w p = (fs_entries w \<noteq> None \<and> (p = fs_root w \<or> is_entry w p))"

text \<open>
  The calls themselves. \<open>mkdtemp\<close> creates the directory, empty. \<open>extract_info\<close>
  changes nothing; \<open>download\<close> leaves the directory as the environment says, and
  then returns or raises. \<open>listdir\<close> raises when the directory is not there, \<open>getsize\<close>
  when the entry is not there or when the environment says so. \<open>remove\<close> raises when the path names no entry or when the
  environment refuses, and takes the entry away otherwise. \<open>rmtree\<close> raises when the
  directory is not there or when the environment refuses, and removes the directory
  otherwise. \<open>sleep\<close> returns or is interrupted.
\<close>

definition tempfile_mkdtemp :: "env \<Rightarrow> path io" where
  "tempfile_mkdtemp env w =
     (let w' = w\<lparr>trace := trace w @ [Mkdtemp (mkdtemp_result env)]\<rparr>
      in case mkdtemp_result env of
           Inl msg \<Rightarrow> (Inl (Exception msg), w')
         | Inr p \<Rightarrow> (Inr p, w'\<lparr>fs_root := p, fs_entries := Some []\<rparr>))"

definition ydl_extract_info :: "env \<Rightarrow> ydl_opts \<Rightarrow> url \<Rightarrow> info option io" where
  "ydl_extract_info env opts u w =
     (let r = extract_info_result env w opts u;
          w' = w\<lparr>trace := trace w @ [Extract_info opts u r]\<rparr>
      in case r of Inl e \<Rightarrow> (Inl e, w') | Inr i \<Rightarrow> (Inr i, w'))"

definition ydl_download :: "env \<Rightarrow> ydl_opts \<Rightarrow> url \<Rightarrow> unit io" where
  "ydl_download env opts u w =
     (let r = download_result env w opts u;
          w' = w\<lparr>fs_entries := download_writes env w opts u,
                 trace := trace w @ [Download opts u r]\<rparr>
      in case r of Some e \<Rightarrow> (Inl e, w') | None \<Rightarrow> (Inr (), w'))"

definition os_listdir :: "path \<Rightarrow> string list io" where
  "os_listdir p =
     then_io (emit (Listdir p))
       (\<lambda>w. case fs_entries w of
              Some names \<Rightarrow>
                (if p = fs_root w then (Inr names, w)
                 else (Inl (Exception ''FileNotFoundError''), w))
            | None \<Rightarrow> (Inl (Exception ''FileNotFoundError''), w))"

definition os_path_getsize :: "env \<Rightarrow> path \<Rightarrow> nat io" where
  "os_path_getsize env p w =
     (let r = (if \<not> is_entry w p then Inl (Exception ''FileNotFoundError'')
               else getsize_result env w p);
          w' = w\<lparr>trace := trace w @ [Getsize p r]\<rparr>
      in case r of Inl e \<Rightarrow> (Inl e, w') | Inr n \<Rightarrow> (Inr n, w'))"

definition os_remove :: "env \<Rightarrow> path \<Rightarrow> unit io" where
  "os_remove env p w =
     (let r = (if \<not> is_entry w p then Some ''FileNotFoundError'' else remove_fails env w p);
          w' = w\<lparr>trace := trace w @ [Remove p r]\<rparr>
      in case r of
           Some msg \<Rightarrow> (Inl (Exception msg), w')
         | None \<Rightarrow>
             (Inr (),
              w'\<lparr>fs_entries :=
                   map_option (filter (\<lambda>f. os_path_join (fs_root w) f \<noteq> p))
                     (fs_entries w)\<rparr>))"

definition os_path_exists :: "path \<Rightarrow> bool io" where
  "os_path_exists p =
     then_io (emit (Exists p)) (\<lambda>w. (Inr (path_exists w p), w))"

definition shutil_rmtree :: "env \<Rightarrow> path \<Rightarrow> unit io" where
  "shutil_rmtree env p w =
     (if fs_entries w = None \<or> p \<noteq> fs_root w
      then (Inl (Exception ''FileNotFoundError''),
            w\<lparr>trace := trace w @ [Rmtree p (Some (Exception ''FileNotFoundError''))]\<rparr>)
      else case rmtree_fails env w p of
             Some (e, left) \<Rightarrow>
               (Inl e,
                w\<lparr>fs_entries := Some left, trace := trace w @ [Rmtree p (Some e)]\<rparr>)
           | None \<Rightarrow>
               (Inr (), w\<lparr>fs_entries := None, trace := trace w @ [Rmtree p None]\<rparr>))"

definition time_sleep :: "env \<Rightarrow> nat \<Rightarrow> unit io" where
  "time_sleep env n w =
     (let r = sleep_result env w n;
          w' = w\<lparr>trace := trace w @ [Sleep n r]\<rparr>
      in case r of Some e \<Rightarrow> (Inl e, w') | None \<Rightarrow> (Inr (), w'))"

text \<open>\<open>info.get(...)\<close>: an \<open>AttributeError\<close> when \<open>info\<close> is \<open>None\<close>.\<close>

definition info_get :: "info option \<Rightarrow> unit io" where
  "info_get i =
     (case i of
        None \<Rightarrow> raise_io (Exception ''NoneType object has no attribute get'')
      | Some _ \<Rightarrow> return_io ())"

subsection \<open>class YouTubeDownloader\<close>

record YouTubeDownloader =
  download_dir :: path

definition YouTubeDownloader_init :: "env \<Rightarrow> YouTubeDownloader io" where
  "YouTubeDownloader_init env =
     then_io (emit (Invoke Init))
       (bind_io (tempfile_mkdtemp env) (\<lambda>p.
        then_io (logger INFO ''Download directory: {self.download_dir}'')
          (return_io \<lparr>download_dir = p\<rparr>)))"

definition test_urls :: "url list" where
  "test_urls =
     [''https://www.youtube.com/watch?v=dQw4w9WgXcQ'',
      ''https://www.youtube.com/watch?v=jNQXAC9IVRw'']"

text \<open>
  One pass of the \<open>try\<close> statement in the probe loop. \<open>True\<close> stands for the
  \<open>return True\<close> of the body, \<open>False\<close> for the \<open>continue\<close> of the handler.
\<close>

definition probe_attempt :: "env \<Rightarrow> url \<Rightarrow> bool io" where
  "probe_attempt env u =
     try_except_Exception
       (bind_io (ydl_extract_info env Quiet_opts u) (\<lambda>i.
        then_io (logger INFO ''Test #{i} SUCCESS:'')
       (then_io (info_get i)
       (then_io (logger INFO ''   Title: {info.get(title, Unknown)}'')
       (then_io (logger INFO ''   Duration: {info.get(duration, Unknown)} seconds'')
       (then_io (logger INFO ''   Uploader: {info.get(uploader, Unknown)}'')
         (return_io True)))))))
       (\<lambda>e. then_io (logger ERROR ''Test #{i} FAILED: {str(e)}'') (return_io False))"

text \<open>The \<open>for\<close> loop over the probe URLs and the two statements after it.\<close>

fun probe_loop :: "env \<Rightarrow> url list \<Rightarrow> bool io" where
  "probe_loop env [] =
     then_io (logger ERROR ''All YouTube access tests failed!'') (return_io False)"
| "probe_loop env (u # us) =
     then_io (logger INFO ''Testing YouTube access #{i}: {url}'')
       (bind_io (probe_attempt env u) (\<lambda>ok.
          if ok then return_io True else probe_loop env us))"

definition test_youtube_access :: "env \<Rightarrow> YouTubeDownloader \<Rightarrow> bool io" where
  "test_youtube_access env self =
     then_io (emit (Invoke Test_youtube_access))
       (bind_io (probe_loop env test_urls) (\<lambda>r.
        then_io (emit (Probe_returned r)) (return_io r)))"

text \<open>The \<open>for filename in os.listdir(...)\<close> loop of \<open>download_video\<close> and the two
  statements after it.\<close>

fun find_downloaded :: "env \<Rightarrow> YouTubeDownloader \<Rightarrow> string list \<Rightarrow> path option io" where
  "find_downloaded env self [] =
     then_io (logger ERROR ''Downloaded file not found!'') (return_io None)"
| "find_downloaded env self (filename # rest) =
     (if \<not> startswith_dot filename then
        (let file_path = os_path_join (download_dir self) filename in
         bind_io (os_path_getsize env file_path) (\<lambda>file_size.
         then_io (logger INFO ''Download SUCCESS:'')
        (then_io (logger INFO ''   File: {filename}'')
        (then_io (logger INFO ''   Size: {file_size:.2f} MB'')
        (then_io (logger INFO ''   Path: {file_path}'')
          (return_io (Some file_path)))))))
      else find_downloaded env self rest)"

definition download_opts :: "YouTubeDownloader \<Rightarrow> bool \<Rightarrow> ydl_opts" where
  "download_opts self max_quality =
     Download_opts (os_path_join (download_dir self) ''%(title)s.%(ext)s'')
       (if max_quality then ''best'' else ''worst'')"

definition download_video :: "env \<Rightarrow> YouTubeDownloader \<Rightarrow> url \<Rightarrow> bool \<Rightarrow> path option io" where
  "download_video env self u max_quality =
     then_io (emit (Invoke (Download_video u)))
       (try_except_Exception
          (then_io (logger INFO ''Starting download: {url}'')
          (bind_io (ydl_extract_info env (download_opts self max_quality) u) (\<lambda>i.
           then_io (logger INFO ''Video Info:'')
          (then_io (info_get i)
          (then_io (logger INFO ''   Title: {info.get(title, Unknown)}'')
          (then_io (logger INFO ''   Duration: {info.get(duration, Unknown)} seconds'')
          (then_io (logger INFO ''   Uploader: {info.get(uploader, Unknown)}'')
          (then_io (logger INFO ''   View Count: {info.get(view_count, Unknown)}'')
          (then_io (logger INFO ''Starting download...'')
          (then_io (ydl_download env (download_opts self max_quality) u)
          (bind_io (os_listdir (download_dir self)) (\<lambda>names.
             find_downloaded env self names))))))))))))
          (\<lambda>e. then_io (logger ERROR ''Download failed: {str(e)}'') (return_io None)))"

definition cleanup :: "env \<Rightarrow> YouTubeDownloader \<Rightarrow> unit io" where
  "cleanup env self =
     then_io (emit (Invoke Cleanup))
       (try_except_Exception
          (bind_io (os_path_exists (download_dir self)) (\<lambda>there.
             if there then
               then_io (shutil_rmtree env (download_dir self))
                 (logger INFO ''Cleaned up: {self.download_dir}'')
             else return_io ()))
          (\<lambda>e. logger WARNING ''Cleanup failed: {e}''))"

subsection \<open>main\<close>

definition test_videos :: "url list" where
  "test_videos =
     [''https://www.youtube.com/watch?v=dQw4w9WgXcQ'',
      ''https://www.youtube.com/watch?v=jNQXAC9IVRw'']"

text \<open>\<open>if downloaded_file:\<close> is the truth value of a path or \<open>None\<close>: \<open>None\<close> and the
  empty string are false.\<close>

definition truthy :: "path option \<Rightarrow> bool" where
  "truthy r = (case r of None \<Rightarrow> False | Some p \<Rightarrow> p \<noteq> [])"

text \<open>The \<open>if downloaded_file: ... else: ...\<close> statement of the loop, with the deletion
  of the file inside its bare \<open>try\<close>.\<close>

definition delete_downloaded :: "env \<Rightarrow> path option \<Rightarrow> unit io" where
  "delete_downloaded env downloaded_file =
     (if truthy downloaded_file then
        then_io (logger INFO ''Video #{i} downloaded successfully!'')
          (try_except_all
             (then_io (os_remove env (the downloaded_file))
                (logger INFO ''Cleaned up: {os.path.basename(downloaded_file)}''))
             (return_io ()))
      else logger ERROR ''Video #{i} download failed!'')"

text \<open>\<open>if i < len(test_videos): ... time.sleep(10)\<close>.\<close>

definition wait_between :: "env \<Rightarrow> nat \<Rightarrow> nat \<Rightarrow> unit io" where
  "wait_between env i n =
     (if i < n then
        then_io (logger INFO ''Waiting 10 seconds before next download...'')
          (time_sleep env 10)
      else return_io ())"

text \<open>The loop \<open>for i, video_url in enumerate(test_videos, 1)\<close>: \<open>i\<close> is the running
  index, \<open>n\<close> is \<open>len(test_videos)\<close>.\<close>

fun download_loop :: "env \<Rightarrow> YouTubeDownloader \<Rightarrow> nat \<Rightarrow> nat \<Rightarrow> url list \<Rightarrow> unit io" where
  "download_loop env downloader i n [] = return_io ()"
| "download_loop env downloader i n (video_url # rest) =
     then_io (logger INFO ''DOWNLOADING VIDEO #{i}'')
    (then_io (logger INFO ''URL: {video_url}'')
    (bind_io (download_video env downloader video_url True) (\<lambda>downloaded_file.
     then_io (delete_downloaded env downloaded_file)
    (then_io (wait_between env i n)
      (download_loop env downloader (Suc i) n rest)))))"

text \<open>The loop of \<open>main\<close> over a list of videos, and the log record after it.\<close>

definition run_downloads :: "env \<Rightarrow> YouTubeDownloader \<Rightarrow> url list \<Rightarrow> unit io" where
  "run_downloads env downloader videos =
     then_io (download_loop env downloader 1 (length videos) videos)
       (logger INFO ''All downloads completed!'')"

text \<open>The body of the \<open>try\<close> of \<open>main\<close>.\<close>

definition main_try :: "env \<Rightarrow> YouTubeDownloader \<Rightarrow> unit io" where
  "main_try env downloader =
     then_io (logger INFO ''Testing YouTube access from Railway...'')
       (bind_io (test_youtube_access env downloader) (\<lambda>access.
          if \<not> access then
            then_io (logger ERROR ''Cannot access YouTube from this Railway instance!'')
           (then_io (logger ERROR ''Possible issues:'')
           (then_io (logger ERROR ''   IP blocked by YouTube'')
           (then_io (logger ERROR ''   Geographical restrictions'')
           (then_io (logger ERROR ''   Network configuration issues'')
             (return_io ())))))
          else
            then_io (logger INFO ''YouTube access confirmed!'')
              (run_downloads env downloader test_videos)))"

text \<open>The two \<open>except\<close> clauses of \<open>main\<close>: both absorb the exception.\<close>

definition main_except :: "unit io \<Rightarrow> unit io" where
  "main_except body w =
     (case body w of
        (Inl KeyboardInterrupt, w') \<Rightarrow> logger INFO ''Download interrupted by user'' w'
      | (Inl (Exception m), w') \<Rightarrow> logger ERROR ''Unexpected error: {str(e)}'' w'
      | (Inr x, w') \<Rightarrow> (Inr x, w'))"

text \<open>\<open>try: body finally: fin\<close>: \<open>fin\<close> runs on every path; an exception of \<open>fin\<close>
  replaces the pending one.\<close>

definition try_finally :: "'a io \<Rightarrow> unit io \<Rightarrow> 'a io" where
  "try_finally body fin w =
     (case body w of
        (r, w') \<Rightarrow> (case fin w' of (Inl e, w'') \<Rightarrow> (Inl e, w'') | (Inr _, w'') \<Rightarrow> (r, w'')))"

definition main :: "env \<Rightarrow> unit io" where
  "main env =
     then_io (logger INFO ''YouTube Downloader for Railway - Starting...'')
    (then_io (logger INFO ''Current time: {datetime.now()}'')
    (then_io (logger INFO ''Python version: {sys.version}'')
    (bind_io (YouTubeDownloader_init env) (\<lambda>downloader.
       try_finally (main_except (main_try env downloader))
         (then_io (cleanup env downloader)
            (logger INFO ''YouTube Downloader finished!''))))))"

text \<open>
  The process: \<open>main()\<close> run from the initial world, once the imports at the top of the
  file are done. The exit status is 0 when \<open>main\<close> returns, 1 when an \<open>Exception\<close>
  reaches the top level, 130 for an interrupt.
\<close>

definition exit_status :: "exc + unit \<Rightarrow> nat" where
  "exit_status r =
     (case r of Inr _ \<Rightarrow> 0 | Inl (Exception _) \<Rightarrow> 1 | Inl KeyboardInterrupt \<Rightarrow> 130)"

definition run :: "env \<Rightarrow> nat \<times> event list" where
  "run env = (case main env initial_world of (r, w) \<Rightarrow> (exit_status r, trace w))"

section \<open>Vocabulary of the properties\<close>

subsection \<open>Traces\<close>

text \<open>The events a statement adds to the trace when it is run in a world.\<close>

definition new_events :: "'a io \<Rightarrow> world \<Rightarrow> event list" where
  "new_events m w = drop (length (trace w)) (trace (snd (m w)))"

text \<open>
  \<open>emits m Q\<close>: from every world, the statement \<open>m\<close> only appends to the trace, and
  its result and the events it appends satisfy \<open>Q\<close>. \<open>only P m\<close>: every event that
  \<open>m\<close> appends satisfies \<open>P\<close>.
\<close>

definition emits :: "'a io \<Rightarrow> ((exc + 'a) \<Rightarrow> event list \<Rightarrow> bool) \<Rightarrow> bool" where
  "emits m Q = (\<forall>w. \<exists>D. trace (snd (m w)) = trace w @ D \<and> Q (fst (m w)) D)"

definition only :: "(event \<Rightarrow> bool) \<Rightarrow> 'a io \<Rightarrow> bool" where
  "only P m = emits m (\<lambda>r D. list_all P D)"

subsection \<open>Kinds of events\<close>

text \<open>
  A download attempt is an entry into \<open>download_video\<close> or a call of the library
  under the download options; a probe attempt is an entry into \<open>test_youtube_access\<close>
  or a call of the library under the probe's options.
\<close>

fun is_download_attempt :: "event \<Rightarrow> bool" where
  "is_download_attempt (Invoke (Download_video u)) = True"
| "is_download_attempt (Download opts u r) = True"
| "is_download_attempt (Extract_info (Download_opts a b) u r) = True"
| "is_download_attempt _ = False"

fun is_probe_attempt :: "event \<Rightarrow> bool" where
  "is_probe_attempt (Invoke Test_youtube_access) = True"
| "is_probe_attempt (Extract_info Quiet_opts u r) = True"
| "is_probe_attempt _ = False"

text \<open>The log records of level \<open>WARNING\<close>.\<close>

fun is_warning :: "event \<Rightarrow> bool" where
  "is_warning (Log WARNING s) = True"
| "is_warning e = False"

text \<open>
  The steps of the download loop that the delay is about: the entries into
  \<open>download_video\<close> and the sleeps. \<open>schedule\<close> is the expected sequence of steps for
  a list of URLs: one download per URL and a completed sleep of 10 seconds between two
  consecutive downloads, none after the last.
\<close>

fun is_step :: "event \<Rightarrow> bool" where
  "is_step (Invoke (Download_video u)) = True"
| "is_step (Sleep n r) = True"
| "is_step e = False"

fun schedule :: "url list \<Rightarrow> event list" where
  "schedule [] = []"
| "schedule [u] = [Invoke (Download_video u)]"
| "schedule (u # v # us) = Invoke (Download_video u) # Sleep 10 None # schedule (v # us)"

subsection \<open>The probe's attempts\<close>

text \<open>
  The probe's calls of the library in a stretch of the trace, each with its answer. An
  extraction succeeds when \<open>extract_info\<close> returns a metadata record; it fails, for the
  loop, when the \<open>try\<close> statement ends in its handler: \<open>extract_info\<close> raised an
  \<open>Exception\<close>, or returned \<open>None\<close> and the first \<open>info.get\<close> raised. An interrupt
  is neither.
\<close>

fun attempts :: "event list \<Rightarrow> (url \<times> (exc + info option)) list" where
  "attempts [] = []"
| "attempts (Extract_info Quiet_opts u r # es) = (u, r) # attempts es"
| "attempts (e # es) = attempts es"

fun extraction_succeeds :: "exc + info option \<Rightarrow> bool" where
  "extraction_succeeds (Inr (Some i)) = True"
| "extraction_succeeds r = False"

fun extraction_fails :: "exc + info option \<Rightarrow> bool" where
  "extraction_fails (Inl (Exception msg)) = True"
| "extraction_fails (Inr None) = True"
| "extraction_fails r = False"

text \<open>
  What the loop of the probe owes for a list of URLs \<open>us\<close>, a result \<open>r\<close> and the
  attempts \<open>A\<close> it made: the attempts follow \<open>us\<close> in order, all but the last failed,
  \<open>True\<close> is returned exactly after a successful last attempt, \<open>False\<close> exactly when
  every URL was attempted and failed, and the loop raises exactly when its last attempt
  was interrupted, the interrupt itself.
\<close>

definition probe_spec :: "url list \<Rightarrow> exc + bool \<Rightarrow> (url \<times> (exc + info option)) list \<Rightarrow> bool" where
  "probe_spec us r A =
     (map fst A = take (length A) us \<and>
      list_all (\<lambda>a. extraction_fails (snd a)) (butlast A) \<and>
      (r = Inr True \<longleftrightarrow> A \<noteq> [] \<and> extraction_succeeds (snd (last A))) \<and>
      (r = Inr False \<longleftrightarrow> length A = length us \<and> list_all (\<lambda>a. extraction_fails (snd a)) A) \<and>
      (r = Inl KeyboardInterrupt \<longleftrightarrow> A \<noteq> [] \<and> snd (last A) = Inl KeyboardInterrupt) \<and>
      (\<forall>msg. r \<noteq> Inl (Exception msg)))"

text \<open>
  \<open>answers_from env w es\<close>: the events \<open>es\<close>, appended to the trace one after the other
  from the world \<open>w\<close> on, record the calls of \<open>extract_info\<close> with the answers of the
  environment: the answer in each record is the one \<open>env\<close> gives for these options and
  this URL in the world of the call, the one whose trace ends right before the record.
\<close>

fun answers_from :: "env \<Rightarrow> world \<Rightarrow> event list \<Rightarrow> bool" where
  "answers_from env w [] = True"
| "answers_from env w (Extract_info opts u a # es) =
     (a = extract_info_result env w opts u \<and>
      answers_from env (w\<lparr>trace := trace w @ [Extract_info opts u a]\<rparr>) es)"
| "answers_from env w (e # es) = answers_from env (w\<lparr>trace := trace w @ [e]\<rparr>) es"

subsection \<open>The filesystem\<close>

text \<open>The state of the filesystem: the two filesystem fields of the world.\<close>

definition fs_state :: "world \<Rightarrow> path \<times> string list option" where
  "fs_state w = (fs_root w, fs_entries w)"

text \<open>
  What the environment does to the \<open>rmtree\<close> of \<open>cleanup\<close>, called in a world \<open>w\<close>
  whose directory exists: it interrupts it, or it lets it succeed. The call is made
  once \<open>cleanup\<close> has recorded its entry and the \<open>exists\<close> test.
\<close>

definition rmtree_interrupted :: "env \<Rightarrow> YouTubeDownloader \<Rightarrow> world \<Rightarrow> bool" where
  "rmtree_interrupted env self w =
     (fs_entries w \<noteq> None \<and> download_dir self = fs_root w \<and>
      map_option fst
        (rmtree_fails env
           (w\<lparr>trace := trace w @ [Invoke Cleanup, Exists (download_dir self)]\<rparr>)
           (download_dir self)) = Some KeyboardInterrupt)"

definition rmtree_succeeds :: "env \<Rightarrow> YouTubeDownloader \<Rightarrow> world \<Rightarrow> bool" where
  "rmtree_succeeds env self w =
     (fs_entries w \<noteq> None \<and> download_dir self = fs_root w \<and>
      rmtree_fails env
        (w\<lparr>trace := trace w @ [Invoke Cleanup, Exists (download_dir self)]\<rparr>)
        (download_dir self) = None)"

text \<open>A directory holds no visible file when it is absent or lists only names that
  start with a dot.\<close>

definition no_visible_file :: "string list option \<Rightarrow> bool" where
  "no_visible_file es = (case es of None \<Rightarrow> True | Some names \<Rightarrow> list_all startswith_dot names)"

text \<open>
  The part of \<open>download_video\<close> that follows the return of \<open>ydl.download\<close>: the
  listing of the directory and the search for the file, under the handler of the
  method's \<open>try\<close>.
\<close>

definition after_download :: "env \<Rightarrow> YouTubeDownloader \<Rightarrow> path option io" where
  "after_download env self =
     try_except_Exception
       (bind_io (os_listdir (download_dir self)) (\<lambda>names. find_downloaded env self names))
       (\<lambda>e. then_io (logger ERROR ''Download failed: {str(e)}'') (return_io None))"

subsection \<open>Concrete environments and worlds\<close>

text \<open>
  The environments on which the theorems are instantiated: one where everything works
  and each download leaves one file; one where \<open>mkdtemp\<close> is refused; one where the
  platform cannot be reached; one where the library returns without touching the
  directory; one where, besides, \<open>extract_info\<close> returns \<open>None\<close>; one where \<open>rmtree\<close> is
  interrupted; one where the filesystem refuses to
  remove files.
\<close>

definition some_info :: info where
  "some_info = \<lparr>title = Some ''t'', duration = Some 212, uploader = None, view_count = None\<rparr>"

definition env_ok :: env where
  "env_ok = \<lparr>mkdtemp_result = Inr ''/tmp/tmpdl'',
     extract_info_result = (\<lambda>w opts u. Inr (Some some_info)),
     download_result = (\<lambda>w opts u. None),
     download_writes = (\<lambda>w opts u. Some [''video.mp4'']),
     getsize_result = (\<lambda>w p. Inr 1048576),
     remove_fails = (\<lambda>w p. None),
     rmtree_fails = (\<lambda>w p. None),
     sleep_result = (\<lambda>w n. None)\<rparr>"

definition env_unwritable :: env where
  "env_unwritable = env_ok\<lparr>mkdtemp_result := Inl ''PermissionError''\<rparr>"

definition env_blocked :: env where
  "env_blocked = env_ok\<lparr>extract_info_result := (\<lambda>w opts u. Inl (Exception ''blocked''))\<rparr>"

definition env_no_file :: env where
  "env_no_file = env_ok\<lparr>download_writes := (\<lambda>w opts u. fs_entries w)\<rparr>"

definition env_interrupted :: env where
  "env_interrupted = env_ok\<lparr>rmtree_fails := (\<lambda>w p. Some (KeyboardInterrupt, []))\<rparr>"


definition env_locked :: env where
  "env_locked = env_ok\<lparr>remove_fails := (\<lambda>w p. Some ''PermissionError'')\<rparr>"

text \<open>
  The downloader of these runs, and its directory: just created, removed, holding a
  hidden and a visible file, holding one file.
\<close>

definition the_downloader :: YouTubeDownloader where
  "the_downloader = \<lparr>download_dir = ''/tmp/tmpdl''\<rparr>"

definition world_ready :: world where
  "world_ready = \<lparr>fs_root = ''/tmp/tmpdl'', fs_entries = Some [], trace = []\<rparr>"

definition world_gone :: world where
  "world_gone = \<lparr>fs_root = ''/tmp/tmpdl'', fs_entries = None, trace = []\<rparr>"


definition world_one_file :: world where
  "world_one_file = \<lparr>fs_root = ''/tmp/tmpdl'', fs_entries = Some [''video.mp4''], trace = []\<rparr>"

section \<open>How statements extend the trace\<close>

lemma emitsI:
  "(\<And>w. \<exists>D. trace (snd (m w)) = trace w @ D \<and> Q (fst (m w)) D) \<Longrightarrow> emits m Q"
  by (simp add: emits_def)

lemma emitsD: "emits m Q \<Longrightarrow> \<exists>D. trace (snd (m w)) = trace w @ D \<and> Q (fst (m w)) D"
  by (simp add: emits_def)

lemma emits_new_events: "emits m Q \<Longrightarrow> Q (fst (m w)) (new_events m w)"
  using emitsD [of m Q w] by (auto simp: new_events_def)

lemma emits_weaken: "emits m Q \<Longrightarrow> (\<And>r D. Q r D \<Longrightarrow> Q' r D) \<Longrightarrow> emits m Q'"
  unfolding emits_def by blast

lemma emits_conj: "emits m Q \<Longrightarrow> emits m Q' \<Longrightarrow> emits m (\<lambda>r D. Q r D \<and> Q' r D)"
  unfolding emits_def by (metis same_append_eq)

lemma only_emits: "only P m \<Longrightarrow> emits m (\<lambda>r D. list_all P D)"
  by (simp add: only_def)

lemma emits_return: "Q (Inr x) [] \<Longrightarrow> emits (return_io x) Q"
  by (simp add: emits_def return_io_def)

lemma emits_raise: "Q (Inl e) [] \<Longrightarrow> emits (raise_io e) Q"
  by (simp add: emits_def raise_io_def)

lemma emits_emit: "Q (Inr ()) [ev] \<Longrightarrow> emits (emit ev) Q"
  by (simp add: emits_def emit_def)

lemma emits_logger: "Q (Inr ()) [Log l s] \<Longrightarrow> emits (logger l s) Q"
  by (simp add: logger_def emits_emit)

lemma emits_bind:
  assumes m: "emits m Q" and f: "\<And>x. emits (f x) (R x)"
    and l: "\<And>e D. Q (Inl e) D \<Longrightarrow> S (Inl e) D"
    and r: "\<And>x D1 r D2. Q (Inr x) D1 \<Longrightarrow> R x r D2 \<Longrightarrow> S r (D1 @ D2)"
  shows "emits (bind_io m f) S"
proof (rule emitsI)
  fix w
  obtain a w1 where mw: "m w = (a, w1)" by (cases "m w")
  from emitsD [OF m, of w] mw obtain D where D: "trace w1 = trace w @ D" "Q a D"
    by auto
  show "\<exists>D. trace (snd (bind_io m f w)) = trace w @ D \<and> S (fst (bind_io m f w)) D"
  proof (cases a)
    case (Inl e)
    with mw D l show ?thesis by (auto simp: bind_io_def)
  next
    case (Inr x)
    from emitsD [OF f, of x w1] obtain D' where
      D': "trace (snd (f x w1)) = trace w1 @ D'" "R x (fst (f x w1)) D'" by auto
    from r [of x D "fst (f x w1)" D'] D D' Inr
    have "S (fst (f x w1)) (D @ D')" by simp
    with mw D D' Inr show ?thesis by (auto simp: bind_io_def)
  qed
qed

lemma emits_then:
  assumes m: "emits m Q" and k: "emits k R"
    and l: "\<And>e D. Q (Inl e) D \<Longrightarrow> S (Inl e) D"
    and r: "\<And>D1 r D2. Q (Inr ()) D1 \<Longrightarrow> R r D2 \<Longrightarrow> S r (D1 @ D2)"
  shows "emits (then_io m k) S"
  unfolding then_io_def
  by (rule emits_bind [OF m, where R = "\<lambda>_. R"]) (use k l r in auto)

lemma emits_try_except_Exception:
  assumes b: "emits body Q" and h: "\<And>msg. emits (handler msg) (R msg)"
    and ok: "\<And>x D. Q (Inr x) D \<Longrightarrow> S (Inr x) D"
    and ki: "\<And>D. Q (Inl KeyboardInterrupt) D \<Longrightarrow> S (Inl KeyboardInterrupt) D"
    and ex: "\<And>msg D1 r D2. Q (Inl (Exception msg)) D1 \<Longrightarrow> R msg r D2 \<Longrightarrow> S r (D1 @ D2)"
  shows "emits (try_except_Exception body handler) S"
proof (rule emitsI)
  fix w
  let ?t = "try_except_Exception body handler w"
  obtain a w1 where mw: "body w = (a, w1)" by (cases "body w")
  from emitsD [OF b, of w] mw obtain D where D: "trace w1 = trace w @ D" "Q a D"
    by auto
  show "\<exists>D. trace (snd ?t) = trace w @ D \<and> S (fst ?t) D"
  proof (cases a)
    case (Inr x)
    with mw D ok show ?thesis by (auto simp: try_except_Exception_def)
  next
    case (Inl e)
    show ?thesis
    proof (cases e)
      case KeyboardInterrupt
      with Inl mw D ki show ?thesis by (auto simp: try_except_Exception_def)
    next
      case (Exception msg)
      from emitsD [OF h, of msg w1] obtain D' where
        D': "trace (snd (handler msg w1)) = trace w1 @ D'" "R msg (fst (handler msg w1)) D'"
        by auto
      from ex [of msg D "fst (handler msg w1)" D'] D D' Inl Exception
      have "S (fst (handler msg w1)) (D @ D')" by simp
      with mw D D' Inl Exception show ?thesis by (auto simp: try_except_Exception_def)
    qed
  qed
qed

lemma emits_try_except_all:
  assumes b: "emits body Q" and h: "emits handler R"
    and ok: "\<And>x D. Q (Inr x) D \<Longrightarrow> S (Inr x) D"
    and ex: "\<And>e D1 r D2. Q (Inl e) D1 \<Longrightarrow> R r D2 \<Longrightarrow> S r (D1 @ D2)"
  shows "emits (try_except_all body handler) S"
proof (rule emitsI)
  fix w
  let ?t = "try_except_all body handler w"
  obtain a w1 where mw: "body w = (a, w1)" by (cases "body w")
  from emitsD [OF b, of w] mw obtain D where D: "trace w1 = trace w @ D" "Q a D"
    by auto
  show "\<exists>D. trace (snd ?t) = trace w @ D \<and> S (fst ?t) D"
  proof (cases a)
    case (Inr x)
    with mw D ok show ?thesis by (auto simp: try_except_all_def)
  next
    case (Inl e)
    from emitsD [OF h, of w1] obtain D' where
      D': "trace (snd (handler w1)) = trace w1 @ D'" "R (fst (handler w1)) D'" by auto
    from ex [of e D "fst (handler w1)" D'] D D' Inl
    have "S (fst (handler w1)) (D @ D')" by simp
    with mw D D' Inl show ?thesis by (auto simp: try_except_all_def)
  qed
qed

lemma emits_main_except:
  assumes b: "emits body Q"
    and ok: "\<And>D. Q (Inr ()) D \<Longrightarrow> S (Inr ()) D"
    and ki: "\<And>D. Q (Inl KeyboardInterrupt) D \<Longrightarrow>
               S (Inr ()) (D @ [Log INFO ''Download interrupted by user''])"
    and ex: "\<And>msg D. Q (Inl (Exception msg)) D \<Longrightarrow>
               S (Inr ()) (D @ [Log ERROR ''Unexpected error: {str(e)}''])"
  shows "emits (main_except body) S"
proof (rule emitsI)
  fix w
  let ?t = "main_except body w"
  obtain a w1 where mw: "body w = (a, w1)" by (cases "body w")
  from emitsD [OF b, of w] mw obtain D where D: "trace w1 = trace w @ D" "Q a D"
    by auto
  show "\<exists>D. trace (snd ?t) = trace w @ D \<and> S (fst ?t) D"
  proof (cases a)
    case (Inr x)
    with mw D ok show ?thesis by (auto simp: main_except_def)
  next
    case (Inl e)
    with mw D ki ex show ?thesis
      by (cases e) (auto simp: main_except_def logger_def emit_def)
  qed
qed

lemma emits_try_finally:
  assumes b: "emits body Q" and f: "emits fin R"
    and ok: "\<And>r D1 D2. Q r D1 \<Longrightarrow> R (Inr ()) D2 \<Longrightarrow> S r (D1 @ D2)"
    and ex: "\<And>r D1 e D2. Q r D1 \<Longrightarrow> R (Inl e) D2 \<Longrightarrow> S (Inl e) (D1 @ D2)"
  shows "emits (try_finally body fin) S"
proof (rule emitsI)
  fix w
  let ?t = "try_finally body fin w"
  obtain a w1 where mw: "body w = (a, w1)" by (cases "body w")
  from emitsD [OF b, of w] mw obtain D where D: "trace w1 = trace w @ D" "Q a D"
    by auto
  obtain c w2 where fw: "fin w1 = (c, w2)" by (cases "fin w1")
  from emitsD [OF f, of w1] fw obtain D' where D': "trace w2 = trace w1 @ D'" "R c D'"
    by auto
  show "\<exists>D. trace (snd ?t) = trace w @ D \<and> S (fst ?t) D"
  proof (cases c)
    case (Inl e)
    with mw fw D D' ex [of a D e D'] show ?thesis by (auto simp: try_finally_def)
  next
    case (Inr u)
    with mw fw D D' ok [of a D D'] show ?thesis by (auto simp: try_finally_def)
  qed
qed

lemma only_weaken: "only P m \<Longrightarrow> (\<And>e. P e \<Longrightarrow> P' e) \<Longrightarrow> only P' m"
  unfolding only_def by (erule emits_weaken) (auto simp: list_all_iff)

lemma only_return: "only P (return_io x)"
  by (simp add: only_def emits_return)

lemma only_raise: "only P (raise_io e)"
  by (simp add: only_def emits_raise)

lemma only_emit: "P ev \<Longrightarrow> only P (emit ev)"
  by (simp add: only_def emits_emit)

lemma only_logger: "P (Log l s) \<Longrightarrow> only P (logger l s)"
  by (simp add: only_def emits_logger)

lemma only_bind: "only P m \<Longrightarrow> (\<And>x. only P (f x)) \<Longrightarrow> only P (bind_io m f)"
  unfolding only_def by (erule emits_bind) auto

lemma only_then: "only P m \<Longrightarrow> only P k \<Longrightarrow> only P (then_io m k)"
  by (simp add: then_io_def only_bind)

lemma only_try_except_Exception:
  "only P body \<Longrightarrow> (\<And>msg. only P (handler msg)) \<Longrightarrow> only P (try_except_Exception body handler)"
  unfolding only_def by (erule emits_try_except_Exception) auto

lemma only_try_except_all:
  "only P body \<Longrightarrow> only P handler \<Longrightarrow> only P (try_except_all body handler)"
  unfolding only_def by (erule emits_try_except_all) auto

lemma only_main_except:
  "only P body \<Longrightarrow> (\<And>l s. P (Log l s)) \<Longrightarrow> only P (main_except body)"
  unfolding only_def by (erule emits_main_except) auto

lemma only_try_finally: "only P body \<Longrightarrow> only P fin \<Longrightarrow> only P (try_finally body fin)"
  unfolding only_def by (erule emits_try_finally) auto

lemma only_mkdtemp: "(\<And>r. P (Mkdtemp r)) \<Longrightarrow> only P (tempfile_mkdtemp env)"
  by (simp add: only_def emits_def tempfile_mkdtemp_def Let_def split: sum.splits)

lemma only_extract_info:
  "(\<And>r. P (Extract_info opts u r)) \<Longrightarrow> only P (ydl_extract_info env opts u)"
  by (simp add: only_def emits_def ydl_extract_info_def Let_def split: sum.splits)

lemma only_download: "(\<And>r. P (Download opts u r)) \<Longrightarrow> only P (ydl_download env opts u)"
  by (simp add: only_def emits_def ydl_download_def Let_def split: option.splits)

lemma only_listdir: "P (Listdir p) \<Longrightarrow> only P (os_listdir p)"
  by (auto simp: only_def emits_def os_listdir_def then_io_def bind_io_def emit_def
      split: option.splits)

lemma only_getsize: "(\<And>r. P (Getsize p r)) \<Longrightarrow> only P (os_path_getsize env p)"
  by (simp add: only_def emits_def os_path_getsize_def Let_def split: sum.splits)

lemma only_remove: "(\<And>r. P (Remove p r)) \<Longrightarrow> only P (os_remove env p)"
  by (simp add: only_def emits_def os_remove_def Let_def split: option.splits)

lemma only_exists: "P (Exists p) \<Longrightarrow> only P (os_path_exists p)"
  by (simp add: only_def emits_def os_path_exists_def then_io_def bind_io_def emit_def)

lemma only_rmtree: "(\<And>r. P (Rmtree p r)) \<Longrightarrow> only P (shutil_rmtree env p)"
  by (auto simp: only_def emits_def shutil_rmtree_def split: option.splits)

lemma only_sleep: "(\<And>r. P (Sleep n r)) \<Longrightarrow> only P (time_sleep env n)"
  by (simp add: only_def emits_def time_sleep_def Let_def split: option.splits)

lemma only_info_get: "only P (info_get i)"
  by (cases i) (simp_all add: info_get_def only_raise only_return)

lemmas only_intros = only_return only_raise only_emit only_logger only_bind only_then
  only_try_except_Exception only_try_except_all only_try_finally only_mkdtemp
  only_extract_info only_download only_listdir only_getsize only_remove only_exists
  only_rmtree only_sleep only_info_get

lemma only_init:
  assumes "\<And>l s. P (Log l s)" "P (Invoke Init)" "\<And>r. P (Mkdtemp r)"
  shows "only P (YouTubeDownloader_init env)"
  unfolding YouTubeDownloader_init_def by (intro only_intros assms)

lemma only_probe_attempt:
  assumes "\<And>l s. P (Log l s)" "\<And>r. P (Extract_info Quiet_opts u r)"
  shows "only P (probe_attempt env u)"
  unfolding probe_attempt_def by (intro only_intros assms)

lemma only_probe_loop:
  assumes "\<And>l s. P (Log l s)" "\<And>u r. P (Extract_info Quiet_opts u r)"
  shows "only P (probe_loop env us)"
proof (induction us)
  case Nil
  show ?case by (simp add: only_intros assms)
next
  case (Cons u us)
  show ?case
    unfolding probe_loop.simps
    by (intro only_then only_bind only_logger only_probe_attempt assms)
       (simp add: only_return Cons.IH)
qed

lemma only_test_youtube_access:
  assumes "\<And>l s. P (Log l s)" "\<And>u r. P (Extract_info Quiet_opts u r)"
    "P (Invoke Test_youtube_access)" "\<And>b. P (Probe_returned b)"
  shows "only P (test_youtube_access env self)"
  unfolding test_youtube_access_def
  by (intro only_intros only_probe_loop assms)

lemma only_find_downloaded:
  assumes "\<And>l s. P (Log l s)" "\<And>p r. P (Getsize p r)"
  shows "only P (find_downloaded env self names)"
proof (induction names)
  case Nil
  show ?case by (simp add: only_intros assms)
next
  case (Cons filename rest)
  show ?case
  proof (cases "startswith_dot filename")
    case True
    with Cons.IH show ?thesis by simp
  next
    case False
    then show ?thesis
      by (simp add: Let_def) (intro only_intros assms)
  qed
qed

lemma only_download_video:
  assumes "\<And>l s. P (Log l s)" "\<And>p r. P (Getsize p r)" "\<And>p. P (Listdir p)"
    "\<And>a b r. P (Extract_info (Download_opts a b) u r)"
    "\<And>a b r. P (Download (Download_opts a b) u r)"
    "P (Invoke (Download_video u))"
  shows "only P (download_video env self u q)"
  unfolding download_video_def download_opts_def
  by (intro only_intros only_find_downloaded assms)

lemma only_cleanup_body:
  assumes "\<And>l s. P (Log l s)" "\<And>p. P (Exists p)" "\<And>p r. P (Rmtree p r)"
  shows "only P
    (try_except_Exception
          (bind_io (os_path_exists (download_dir self)) (\<lambda>there.
             if there then
               then_io (shutil_rmtree env (download_dir self))
                 (logger INFO ''Cleaned up: {self.download_dir}'')
             else return_io ()))
          (\<lambda>e. logger WARNING ''Cleanup failed: {e}''))"
  by (intro only_intros assms) (simp add: only_intros assms)

lemma only_cleanup:
  assumes "\<And>l s. P (Log l s)" "\<And>p. P (Exists p)" "\<And>p r. P (Rmtree p r)"
    "P (Invoke Cleanup)"
  shows "only P (cleanup env self)"
  unfolding cleanup_def by (intro only_then only_emit only_cleanup_body assms)

lemma only_delete_downloaded:
  assumes "\<And>l s. P (Log l s)" "\<And>p r. P (Remove p r)"
  shows "only P (delete_downloaded env f)"
  unfolding delete_downloaded_def
  by (cases "truthy f") (simp_all add: only_intros assms)

lemma only_wait_between:
  assumes "\<And>l s. P (Log l s)" "\<And>n r. P (Sleep n r)"
  shows "only P (wait_between env i n)"
  unfolding wait_between_def by (simp add: only_intros assms)

section \<open>Workspace creation\<close>

lemmas io_defs = return_io_def raise_io_def bind_io_def then_io_def try_except_Exception_def
  try_except_all_def emit_def logger_def try_finally_def main_except_def

lemma run_mkdtemp_fails:
  "mkdtemp_result env = Inl msg \<Longrightarrow>
   run env = (1, [Log INFO ''YouTube Downloader for Railway - Starting...'',
                  Log INFO ''Current time: {datetime.now()}'',
                  Log INFO ''Python version: {sys.version}'',
                  Invoke Init, Mkdtemp (Inl msg)])"
  by (simp add: run_def main_def YouTubeDownloader_init_def tempfile_mkdtemp_def io_defs
      initial_world_def exit_status_def Let_def)

text \<open>
  C6. If creating the temporary directory fails, the process ends with a non-zero exit
  status (1, an uncaught exception), and the run holds no probe attempt and no download
  attempt: the constructor is called before the \<open>try\<close> of \<open>main\<close>.
\<close>

theorem workspace_creation_failure_is_fatal:
  "mkdtemp_result env = Inl msg \<Longrightarrow>
   fst (run env) = 1 \<and>
   filter is_probe_attempt (snd (run env)) = [] \<and>
   filter is_download_attempt (snd (run env)) = []"
  by (simp add: run_mkdtemp_fails)

theorem workspace_creation_failure_is_fatal_witness:
  "mkdtemp_result env_unwritable = Inl ''PermissionError'' \<and>
   fst (run env_unwritable) = 1 \<and>
   filter is_probe_attempt (snd (run env_unwritable)) = [] \<and>
   filter is_download_attempt (snd (run env_unwritable)) = []"
  using workspace_creation_failure_is_fatal [of env_unwritable "''PermissionError''"]
  by (simp add: env_unwritable_def env_ok_def)

section \<open>Cleanup\<close>

lemma path_exists_trace: "path_exists (w\<lparr>trace := t\<rparr>) p = path_exists w p"
  by (cases "fs_entries w") (simp_all add: path_exists_def is_entry_def)

lemma cleanup_absent_run:
  "\<not> path_exists w (download_dir self) \<Longrightarrow>
   cleanup env self w =
     (Inr (), w\<lparr>trace := trace w @ [Invoke Cleanup, Exists (download_dir self)]\<rparr>)"
  by (simp add: cleanup_def os_path_exists_def io_defs path_exists_trace)

lemma cleanup_present_run:
  "path_exists w (download_dir self) \<Longrightarrow>
   cleanup env self w =
     (case shutil_rmtree env (download_dir self)
             (w\<lparr>trace := trace w @ [Invoke Cleanup, Exists (download_dir self)]\<rparr>) of
        (Inr x, w') \<Rightarrow>
          (Inr (), w'\<lparr>trace := trace w' @ [Log INFO ''Cleaned up: {self.download_dir}'']\<rparr>)
      | (Inl (Exception m), w') \<Rightarrow>
          (Inr (), w'\<lparr>trace := trace w' @ [Log WARNING ''Cleanup failed: {e}'']\<rparr>)
      | (Inl KeyboardInterrupt, w') \<Rightarrow> (Inl KeyboardInterrupt, w'))"
  by (simp add: cleanup_def os_path_exists_def io_defs path_exists_trace
      split: prod.splits sum.splits exc.splits)

lemma cleanup_result:
  "fst (cleanup env self w) =
     (if rmtree_interrupted env self w then Inl KeyboardInterrupt else Inr ())"
proof (cases "path_exists w (download_dir self)")
  case False
  then show ?thesis
    by (auto simp: cleanup_absent_run rmtree_interrupted_def path_exists_def)
next
  case True
  show ?thesis
  proof (cases "download_dir self = fs_root w")
    case False
    with True show ?thesis
      by (simp add: cleanup_present_run shutil_rmtree_def rmtree_interrupted_def)
  next
    case root: True
    with True have e: "fs_entries w \<noteq> None" by (simp add: path_exists_def)
    show ?thesis
    proof (cases "rmtree_fails env
        (w\<lparr>trace := trace w @ [Invoke Cleanup, Exists (download_dir self)]\<rparr>)
        (download_dir self)")
      case None
      with True root e show ?thesis
        by (simp add: cleanup_present_run shutil_rmtree_def rmtree_interrupted_def)
    next
      case (Some el)
      with True root e show ?thesis
        by (cases el; cases "fst el")
           (simp_all add: cleanup_present_run shutil_rmtree_def rmtree_interrupted_def)
    qed
  qed
qed

lemma cleanup_absent:
  "\<not> path_exists w (download_dir self) \<Longrightarrow> fs_state (snd (cleanup env self w)) = fs_state w"
  by (simp add: cleanup_absent_run fs_state_def)

lemma cleanup_succeeds:
  assumes "rmtree_succeeds env self w"
  shows "cleanup env self w =
     (Inr (), w\<lparr>fs_entries := None,
                trace := trace w @
                  [Invoke Cleanup, Exists (download_dir self), Rmtree (download_dir self) None,
                   Log INFO ''Cleaned up: {self.download_dir}'']\<rparr>)"
proof -
  let ?w0 = "w\<lparr>trace := trace w @ [Invoke Cleanup, Exists (download_dir self)]\<rparr>"
  from assms have e: "path_exists w (download_dir self)"
    and r: "rmtree_fails env ?w0 (download_dir self) = None"
    and n: "fs_entries w \<noteq> None" "download_dir self = fs_root w"
    unfolding rmtree_succeeds_def path_exists_def by auto
  have "shutil_rmtree env (download_dir self) ?w0 =
      (Inr (), ?w0\<lparr>fs_entries := None,
                   trace := trace ?w0 @ [Rmtree (download_dir self) None]\<rparr>)"
    using r n by (simp add: shutil_rmtree_def)
  then show ?thesis
    by (simp add: cleanup_present_run [OF e])
qed

lemma cleanup_removed:
  assumes "Rmtree (download_dir self) None \<in> set (new_events (cleanup env self) w)"
  shows "\<not> path_exists (snd (cleanup env self w)) (download_dir self)"
proof (cases "path_exists w (download_dir self)")
  case False
  with assms show ?thesis by (simp add: cleanup_absent_run new_events_def)
next
  case True
  with assms show ?thesis
    by (auto simp: cleanup_present_run new_events_def path_exists_def is_entry_def
        shutil_rmtree_def split: if_splits option.splits exc.splits)
qed

text \<open>
  A directory that exists and an \<open>rmtree\<close> that is interrupted: \<open>except Exception\<close>
  does not catch the interrupt, and \<open>cleanup\<close> raises it.
\<close>

theorem cleanup_interrupted_counterexample:
  "fst (cleanup env_interrupted the_downloader world_ready) = Inl KeyboardInterrupt"
  by (simp add: cleanup_result rmtree_interrupted_def env_interrupted_def env_ok_def
      the_downloader_def world_ready_def)

text \<open>
  C10, as amended. \<open>cleanup\<close> never raises an \<open>Exception\<close>: it returns, except when
  its directory exists and the environment interrupts \<open>rmtree\<close>, and then it raises
  that interrupt. Invoked when its directory does not exist, it returns and leaves the
  filesystem as it was. When the environment lets \<open>rmtree\<close> succeed, it returns with the
  directory removed, and a second invocation returns as well and leaves the filesystem
  as the first one left it; the same holds after any invocation whose \<open>rmtree\<close>
  returned.
\<close>

theorem cleanup_raises_only_an_interrupt:
  "fst (cleanup env self w) =
     (if rmtree_interrupted env self w then Inl KeyboardInterrupt else Inr ()) \<and>
   (\<not> path_exists w (download_dir self) \<longrightarrow>
      fst (cleanup env self w) = Inr () \<and>
      fs_state (snd (cleanup env self w)) = fs_state w) \<and>
   (rmtree_succeeds env self w \<longrightarrow>
      fst (cleanup env self w) = Inr () \<and>
      fs_state (snd (cleanup env self w)) = (fs_root w, None) \<and>
      fst (cleanup env self (snd (cleanup env self w))) = Inr () \<and>
      fs_state (snd (cleanup env self (snd (cleanup env self w)))) =
        fs_state (snd (cleanup env self w))) \<and>
   (Rmtree (download_dir self) None \<in> set (new_events (cleanup env self) w) \<longrightarrow>
      fst (cleanup env self (snd (cleanup env self w))) = Inr () \<and>
      fs_state (snd (cleanup env self (snd (cleanup env self w)))) =
        fs_state (snd (cleanup env self w)))"
proof -
  have absent: "fst (cleanup env self v) = Inr () \<and>
      fs_state (snd (cleanup env self v)) = fs_state v"
    if "\<not> path_exists v (download_dir self)" for v
    using that by (simp add: cleanup_absent_run fs_state_def)
  have "fst (cleanup env self w) = Inr () \<and>
      fs_state (snd (cleanup env self w)) = (fs_root w, None) \<and>
      \<not> path_exists (snd (cleanup env self w)) (download_dir self)"
    if "rmtree_succeeds env self w"
    using that by (simp add: cleanup_succeeds fs_state_def path_exists_def)
  with absent cleanup_removed [of self env w] cleanup_result [of env self w]
  show ?thesis by blast
qed

theorem cleanup_raises_only_an_interrupt_witness:
  "\<not> path_exists world_gone (download_dir the_downloader) \<and>
   fs_state (snd (cleanup env_ok the_downloader world_gone)) = fs_state world_gone \<and>
   rmtree_succeeds env_ok the_downloader world_ready \<and>
   fst (cleanup env_ok the_downloader world_ready) = Inr () \<and>
   fs_state (snd (cleanup env_ok the_downloader world_ready)) = (''/tmp/tmpdl'', None) \<and>
   fs_state (snd (cleanup env_ok the_downloader
               (snd (cleanup env_ok the_downloader world_ready)))) =
     (''/tmp/tmpdl'', None)"
proof -
  have a: "\<not> path_exists world_gone (download_dir the_downloader)"
    by (simp add: path_exists_def world_gone_def)
  have b: "rmtree_succeeds env_ok the_downloader world_ready"
    by (simp add: rmtree_succeeds_def env_ok_def the_downloader_def world_ready_def)
  have c: "fs_root world_ready = ''/tmp/tmpdl''" by (simp add: world_ready_def)
  from a b c cleanup_raises_only_an_interrupt [of env_ok the_downloader world_gone]
    cleanup_raises_only_an_interrupt [of env_ok the_downloader world_ready]
  show ?thesis by auto
qed

section \<open>What \<open>main\<close> and its parts append to the trace\<close>

lemma only_download_loop:
  assumes "\<And>l s. P (Log l s)" "\<And>p r. P (Getsize p r)" "\<And>p. P (Listdir p)"
    "\<And>a b u r. P (Extract_info (Download_opts a b) u r)"
    "\<And>a b u r. P (Download (Download_opts a b) u r)"
    "\<And>u. P (Invoke (Download_video u))"
    "\<And>p r. P (Remove p r)" "\<And>n r. P (Sleep n r)"
  shows "only P (download_loop env d i n vs)"
proof (induction vs arbitrary: i)
  case Nil
  show ?case by (simp add: only_return)
next
  case (Cons v vs)
  show ?case
    unfolding download_loop.simps
    by (intro only_then only_bind only_logger only_download_video only_delete_downloaded
        only_wait_between Cons.IH assms)
qed

lemma only_run_downloads:
  assumes "\<And>l s. P (Log l s)" "\<And>p r. P (Getsize p r)" "\<And>p. P (Listdir p)"
    "\<And>a b u r. P (Extract_info (Download_opts a b) u r)"
    "\<And>a b u r. P (Download (Download_opts a b) u r)"
    "\<And>u. P (Invoke (Download_video u))"
    "\<And>p r. P (Remove p r)" "\<And>n r. P (Sleep n r)"
  shows "only P (run_downloads env d vs)"
  unfolding run_downloads_def
  by (intro only_then only_logger only_download_loop assms)

lemma only_main_try:
  assumes "\<And>l s. P (Log l s)" "\<And>p r. P (Getsize p r)" "\<And>p. P (Listdir p)"
    "\<And>a b u r. P (Extract_info (Download_opts a b) u r)"
    "\<And>a b u r. P (Download (Download_opts a b) u r)"
    "\<And>u. P (Invoke (Download_video u))"
    "\<And>p r. P (Remove p r)" "\<And>n r. P (Sleep n r)"
    "\<And>u r. P (Extract_info Quiet_opts u r)"
    "P (Invoke Test_youtube_access)" "\<And>b. P (Probe_returned b)"
  shows "only P (main_try env d)"
  unfolding main_try_def
  by (intro only_then only_bind only_logger only_test_youtube_access assms)
     (simp add: only_then only_logger only_return only_run_downloads assms)

lemma init_emits:
  assumes "\<And>l s. P (Log l s)" "P (Invoke Init)" "\<And>r. P (Mkdtemp r)"
  shows "emits (YouTubeDownloader_init env)
     (\<lambda>r D. list_all P D \<and> (\<forall>p. mkdtemp_result env = Inr p \<longrightarrow> r = Inr \<lparr>download_dir = p\<rparr>))"
  using assms
  by (simp add: emits_def YouTubeDownloader_init_def tempfile_mkdtemp_def io_defs Let_def
      split: sum.splits)

lemma run_trace: "snd (run env) = new_events (main env) initial_world"
  by (simp add: run_def new_events_def initial_world_def split: prod.splits)


lemma init_succeeds:
  "mkdtemp_result env = Inr p \<Longrightarrow>
   YouTubeDownloader_init env w =
     (Inr \<lparr>download_dir = p\<rparr>,
      w\<lparr>fs_root := p, fs_entries := Some [],
        trace := trace w @ [Invoke Init, Mkdtemp (Inr p),
                            Log INFO ''Download directory: {self.download_dir}'']\<rparr>)"
  by (simp add: YouTubeDownloader_init_def tempfile_mkdtemp_def io_defs Let_def)


section \<open>Cleanup runs once\<close>

text \<open>
  When \<open>mkdtemp\<close> raises, the run ends before the \<open>try\<close> of \<open>main\<close> is entered and
  \<open>cleanup\<close> is never invoked.
\<close>

theorem cleanup_not_invoked_counterexample:
  "count_list (snd (run env_unwritable)) (Invoke Cleanup) = 0"
proof -
  have "mkdtemp_result env_unwritable = Inl ''PermissionError''"
    by (simp add: env_unwritable_def env_ok_def)
  then show ?thesis by (simp add: run_mkdtemp_fails)
qed

lemma count_list_absent: "list_all (\<lambda>e. e \<noteq> x) D \<Longrightarrow> count_list D x = 0"
  by (induction D) auto

lemma cleanup_emits_once:
  "emits (cleanup env self) (\<lambda>r D. count_list D (Invoke Cleanup) = 1)"
  unfolding cleanup_def
  by (rule emits_then [OF emits_emit
          only_emits [OF only_cleanup_body [where P = "\<lambda>e. e \<noteq> Invoke Cleanup"]],
        where Q = "\<lambda>r D. D = [Invoke Cleanup]"])
     (simp_all add: count_list_absent)

lemma main_tail_emits_cleanup_once:
  "emits (try_finally (main_except (main_try env d))
            (then_io (cleanup env d) (logger INFO ''YouTube Downloader finished!'')))
     (\<lambda>r D. count_list D (Invoke Cleanup) = 1)"
proof (rule emits_try_finally
    [where Q = "\<lambda>r D. list_all (\<lambda>e. e \<noteq> Invoke Cleanup) D"
       and R = "\<lambda>r D. count_list D (Invoke Cleanup) = 1"])
  have "only (\<lambda>e. e \<noteq> Invoke Cleanup) (main_except (main_try env d))"
    by (intro only_main_except only_main_try) simp_all
  then show "emits (main_except (main_try env d)) (\<lambda>r D. list_all (\<lambda>e. e \<noteq> Invoke Cleanup) D)"
    by (simp add: only_def)
  show "emits (then_io (cleanup env d) (logger INFO ''YouTube Downloader finished!''))
     (\<lambda>r D. count_list D (Invoke Cleanup) = 1)"
    by (rule emits_then [OF cleanup_emits_once,
          where R = "\<lambda>r D. D = [Log INFO ''YouTube Downloader finished!'']"])
       (simp_all add: emits_logger)
qed (simp_all add: count_list_absent)

lemma main_emits_cleanup_once:
  assumes "mkdtemp_result env = Inr p"
  shows "emits (main env) (\<lambda>r D. count_list D (Invoke Cleanup) = 1)"
proof -
  let ?N = "\<lambda>e. e \<noteq> Invoke Cleanup"
  have banner: "\<And>s. emits (logger INFO s) (\<lambda>r D. r = Inr () \<and> list_all ?N D)"
    by (simp add: emits_logger)
  have init: "emits (YouTubeDownloader_init env) (\<lambda>r D. list_all ?N D)"
    by (rule emits_weaken [OF init_emits [where P = ?N]]) simp_all
  have init_ok: "emits (YouTubeDownloader_init env) (\<lambda>r D. \<exists>d. r = Inr d)"
    by (rule emits_weaken [OF init_emits [where P = "\<lambda>e. True"]]) (simp_all add: assms)
  have "emits (bind_io (YouTubeDownloader_init env) (\<lambda>downloader.
       try_finally (main_except (main_try env downloader))
         (then_io (cleanup env downloader)
            (logger INFO ''YouTube Downloader finished!''))))
     (\<lambda>r D. count_list D (Invoke Cleanup) = 1)"
    by (rule emits_bind [OF emits_conj [OF init init_ok] main_tail_emits_cleanup_once])
       (auto simp: count_list_absent)
  then show ?thesis
    unfolding main_def
    by (intro emits_then [OF banner, where R = "\<lambda>r D. count_list D (Invoke Cleanup) = 1"])
       (simp_all add: count_list_absent)
qed

text \<open>
  C3, as amended. In every run in which the temporary directory was created, \<open>cleanup\<close>
  is invoked exactly once before the process ends, whatever the probe, the downloads,
  an unexpected error or an interrupt did.
\<close>

theorem cleanup_invoked_exactly_once:
  "mkdtemp_result env = Inr p \<Longrightarrow> count_list (snd (run env)) (Invoke Cleanup) = 1"
  unfolding run_trace by (rule emits_new_events [OF main_emits_cleanup_once])

theorem cleanup_invoked_exactly_once_witness:
  "mkdtemp_result env_ok = Inr ''/tmp/tmpdl'' \<and>
   count_list (snd (run env_ok)) (Invoke Cleanup) = 1"
  using cleanup_invoked_exactly_once [of env_ok "''/tmp/tmpdl''"]
  by (simp add: env_ok_def)

section \<open>No download without connectivity\<close>

lemma probe_blocked:
  "test_youtube_access env_blocked d w =
     (Inr False, w\<lparr>trace := trace w @
        [Invoke Test_youtube_access,
         Log INFO ''Testing YouTube access #{i}: {url}'',
         Extract_info Quiet_opts ''https://www.youtube.com/watch?v=dQw4w9WgXcQ''
           (Inl (Exception ''blocked'')),
         Log ERROR ''Test #{i} FAILED: {str(e)}'',
         Log INFO ''Testing YouTube access #{i}: {url}'',
         Extract_info Quiet_opts ''https://www.youtube.com/watch?v=jNQXAC9IVRw''
           (Inl (Exception ''blocked'')),
         Log ERROR ''Test #{i} FAILED: {str(e)}'',
         Log ERROR ''All YouTube access tests failed!'',
         Probe_returned False]\<rparr>)"
  by (simp add: test_youtube_access_def test_urls_def probe_attempt_def ydl_extract_info_def
      io_defs env_blocked_def env_ok_def Let_def)

lemma env_blocked_simps:
  "mkdtemp_result env_blocked = Inr ''/tmp/tmpdl''"
  "rmtree_fails env_blocked = (\<lambda>w p. None)"
  by (simp_all add: env_blocked_def env_ok_def)

lemma cleanup_blocked:
  "fs_entries w \<noteq> None \<Longrightarrow> download_dir d = fs_root w \<Longrightarrow>
   cleanup env_blocked d w =
     (Inr (), w\<lparr>fs_entries := None,
                trace := trace w @
                  [Invoke Cleanup, Exists (download_dir d), Rmtree (download_dir d) None,
                   Log INFO ''Cleaned up: {self.download_dir}'']\<rparr>)"
  by (rule cleanup_succeeds) (simp add: rmtree_succeeds_def env_blocked_simps(2))

lemma run_blocked: "Probe_returned False \<in> set (snd (run env_blocked))"
  by (simp add: run_def main_def main_try_def probe_blocked
      init_succeeds [OF env_blocked_simps(1)] cleanup_blocked io_defs initial_world_def)

lemma test_youtube_access_emits:
  assumes P: "\<And>l s. P (Log l s)" "\<And>u r. P (Extract_info Quiet_opts u r)"
    "P (Invoke Test_youtube_access)" "\<And>b. P (Probe_returned b)"
  shows "emits (test_youtube_access env self)
     (\<lambda>r D. list_all P D \<and> (Probe_returned False \<in> set D \<longrightarrow> r = Inr False))"
proof -
  let ?PN = "\<lambda>e. P e \<and> e \<noteq> Probe_returned False"
  have loop: "emits (probe_loop env test_urls) (\<lambda>r D. list_all ?PN D)"
    using only_probe_loop [where P = ?PN] by (simp add: only_def P)
  have ret: "\<And>r. emits (then_io (emit (Probe_returned r)) (return_io r))
      (\<lambda>r' D. r' = Inr r \<and> D = [Probe_returned r])"
    by (simp add: emits_def io_defs)
  have step: "emits (bind_io (probe_loop env test_urls) (\<lambda>r.
        then_io (emit (Probe_returned r)) (return_io r)))
     (\<lambda>r D. list_all P D \<and> (Probe_returned False \<in> set D \<longrightarrow> r = Inr False))"
    by (rule emits_bind [OF loop ret]) (auto simp: list_all_iff P)
  show ?thesis
    unfolding test_youtube_access_def
    by (rule emits_then [OF emits_emit step,
          where Q = "\<lambda>r D. r = Inr () \<and> D = [Invoke Test_youtube_access]"])
       (auto simp: P)
qed

lemma main_try_emits_no_download:
  "emits (main_try env d)
     (\<lambda>r D. Probe_returned False \<in> set D \<longrightarrow> list_all (\<lambda>e. \<not> is_download_attempt e) D)"
proof -
  let ?P = "\<lambda>e. \<not> is_download_attempt e"
  let ?N = "\<lambda>e. e \<noteq> Probe_returned False"
  let ?k = "\<lambda>access.
          if \<not> access then
            then_io (logger ERROR ''Cannot access YouTube from this Railway instance!'')
           (then_io (logger ERROR ''Possible issues:'')
           (then_io (logger ERROR ''   IP blocked by YouTube'')
           (then_io (logger ERROR ''   Geographical restrictions'')
           (then_io (logger ERROR ''   Network configuration issues'')
             (return_io ())))))
          else
            then_io (logger INFO ''YouTube access confirmed!'')
              (run_downloads env d test_videos)"
  have k: "\<And>access. emits (?k access)
      (\<lambda>r D. if access then list_all ?N D else list_all (\<lambda>e. ?P e \<and> ?N e) D)"
  proof -
    fix access
    show "emits (?k access)
      (\<lambda>r D. if access then list_all ?N D else list_all (\<lambda>e. ?P e \<and> ?N e) D)"
    proof (cases access)
      case True
      have "only ?N (then_io (logger INFO ''YouTube access confirmed!'')
              (run_downloads env d test_videos))"
        by (intro only_then only_logger only_run_downloads) simp_all
      with True show ?thesis by (simp add: only_def)
    next
      case False
      have "only (\<lambda>e. ?P e \<and> ?N e)
           (then_io (logger ERROR ''Cannot access YouTube from this Railway instance!'')
           (then_io (logger ERROR ''Possible issues:'')
           (then_io (logger ERROR ''   IP blocked by YouTube'')
           (then_io (logger ERROR ''   Geographical restrictions'')
           (then_io (logger ERROR ''   Network configuration issues'')
             (return_io ()))))))"
        by (intro only_then only_logger only_return) simp_all
      with False show ?thesis by (simp add: only_def)
    qed
  qed
  have probe: "emits (test_youtube_access env d)
     (\<lambda>r D. list_all ?P D \<and> (Probe_returned False \<in> set D \<longrightarrow> r = Inr False))"
    by (rule test_youtube_access_emits) simp_all
  have step: "emits (bind_io (test_youtube_access env d) ?k)
     (\<lambda>r D. Probe_returned False \<in> set D \<longrightarrow> list_all ?P D)"
    by (rule emits_bind [OF probe k]) (auto simp: list_all_iff split: if_splits)
  show ?thesis
    unfolding main_try_def
    by (rule emits_then [OF emits_logger step,
          where Q = "\<lambda>r D. D = [Log INFO ''Testing YouTube access from Railway...'']"])
       auto
qed

lemma main_emits_no_download:
  "emits (main env)
     (\<lambda>r D. Probe_returned False \<in> set D \<longrightarrow> list_all (\<lambda>e. \<not> is_download_attempt e) D)"
proof -
  let ?P = "\<lambda>e. \<not> is_download_attempt e"
  let ?PN = "\<lambda>e. \<not> is_download_attempt e \<and> e \<noteq> Probe_returned False"
  let ?Q = "\<lambda>(r::exc + unit) D. Probe_returned False \<in> set D \<longrightarrow> list_all ?P D"
  have banner: "\<And>s. emits (logger INFO s) (\<lambda>r D. list_all ?PN D)"
    by (simp add: emits_logger)
  have init: "emits (YouTubeDownloader_init env) (\<lambda>r D. list_all ?PN D)"
    by (rule emits_weaken [OF init_emits [where P = ?PN]]) simp_all
  have body: "\<And>d. emits (main_except (main_try env d)) ?Q"
    by (rule emits_main_except [OF main_try_emits_no_download]) auto
  have fin: "\<And>d. emits (then_io (cleanup env d) (logger INFO ''YouTube Downloader finished!''))
      (\<lambda>r D. list_all ?PN D)"
  proof -
    fix d
    have "only ?PN (then_io (cleanup env d) (logger INFO ''YouTube Downloader finished!''))"
      by (intro only_then only_logger only_cleanup) simp_all
    then show "emits (then_io (cleanup env d) (logger INFO ''YouTube Downloader finished!''))
      (\<lambda>r D. list_all ?PN D)" by (simp add: only_def)
  qed
  have tail: "\<And>d. emits (try_finally (main_except (main_try env d))
         (then_io (cleanup env d) (logger INFO ''YouTube Downloader finished!''))) ?Q"
    by (rule emits_try_finally [OF body fin]) (auto simp: list_all_iff)
  have m3: "emits (bind_io (YouTubeDownloader_init env) (\<lambda>downloader.
       try_finally (main_except (main_try env downloader))
         (then_io (cleanup env downloader)
            (logger INFO ''YouTube Downloader finished!'')))) ?Q"
    by (rule emits_bind [OF init tail]) (auto simp: list_all_iff)
  have m2: "emits (then_io (logger INFO ''Python version: {sys.version}'')
      (bind_io (YouTubeDownloader_init env) (\<lambda>downloader.
       try_finally (main_except (main_try env downloader))
         (then_io (cleanup env downloader)
            (logger INFO ''YouTube Downloader finished!''))))) ?Q"
    by (rule emits_then [OF banner m3]) (auto simp: list_all_iff)
  have m1: "emits (then_io (logger INFO ''Current time: {datetime.now()}'')
      (then_io (logger INFO ''Python version: {sys.version}'')
      (bind_io (YouTubeDownloader_init env) (\<lambda>downloader.
       try_finally (main_except (main_try env downloader))
         (then_io (cleanup env downloader)
            (logger INFO ''YouTube Downloader finished!'')))))) ?Q"
    by (rule emits_then [OF banner m2]) (auto simp: list_all_iff)
  show ?thesis
    unfolding main_def
    by (rule emits_then [OF banner m1]) (auto simp: list_all_iff)
qed

text \<open>
  C2. In every run in which \<open>test_youtube_access\<close> returns \<open>False\<close>, no download is
  attempted: \<open>download_video\<close> is never entered and the library is never called under
  the download options.
\<close>

theorem no_download_after_failed_probe:
  "Probe_returned False \<in> set (snd (run env)) \<Longrightarrow>
   filter is_download_attempt (snd (run env)) = []"
  using emits_new_events [OF main_emits_no_download, of env initial_world]
  by (simp add: run_trace list_all_iff filter_empty_conv)

theorem no_download_after_failed_probe_witness:
  "Probe_returned False \<in> set (snd (run env_blocked)) \<and>
   filter is_download_attempt (snd (run env_blocked)) = []"
  using no_download_after_failed_probe [of env_blocked] run_blocked by simp

section \<open>The connectivity probe\<close>

lemma attempts_append: "attempts (xs @ ys) = attempts xs @ attempts ys"
  by (induction xs rule: attempts.induct) simp_all

lemma succeeds_not_fails: "extraction_succeeds r \<Longrightarrow> \<not> extraction_fails r"
  by (cases r rule: extraction_succeeds.cases) simp_all

lemma emits_by_new_events:
  "(\<And>w. trace (snd (m w)) = trace w @ new_events m w \<and> Q (fst (m w)) (new_events m w))
   \<Longrightarrow> emits m Q"
  unfolding emits_def by blast

lemma probe_attempt_cases:
  "probe_attempt env u w =
     (case extract_info_result env w Quiet_opts u of
        Inl KeyboardInterrupt \<Rightarrow>
          (Inl KeyboardInterrupt,
           w\<lparr>trace := trace w @ [Extract_info Quiet_opts u (Inl KeyboardInterrupt)]\<rparr>)
      | Inl (Exception msg) \<Rightarrow>
          (Inr False,
           w\<lparr>trace := trace w @
              [Extract_info Quiet_opts u (Inl (Exception msg)),
               Log ERROR ''Test #{i} FAILED: {str(e)}'']\<rparr>)
      | Inr None \<Rightarrow>
          (Inr False,
           w\<lparr>trace := trace w @
              [Extract_info Quiet_opts u (Inr None), Log INFO ''Test #{i} SUCCESS:'',
               Log ERROR ''Test #{i} FAILED: {str(e)}'']\<rparr>)
      | Inr (Some i) \<Rightarrow>
          (Inr True,
           w\<lparr>trace := trace w @
              [Extract_info Quiet_opts u (Inr (Some i)), Log INFO ''Test #{i} SUCCESS:'',
               Log INFO ''   Title: {info.get(title, Unknown)}'',
               Log INFO ''   Duration: {info.get(duration, Unknown)} seconds'',
               Log INFO ''   Uploader: {info.get(uploader, Unknown)}'']\<rparr>))"
  by (simp add: probe_attempt_def ydl_extract_info_def io_defs info_get_def Let_def
      split: sum.splits exc.splits option.splits)

lemma probe_loop_Cons:
  "probe_loop env (u # us) w =
     (case probe_attempt env u
             (w\<lparr>trace := trace w @ [Log INFO ''Testing YouTube access #{i}: {url}'']\<rparr>) of
        (Inl e, w') \<Rightarrow> (Inl e, w')
      | (Inr ok, w') \<Rightarrow> if ok then (Inr True, w') else probe_loop env us w')"
  by (simp add: io_defs split: prod.splits sum.splits)

lemma probe_spec_advance:
  "extraction_fails a \<Longrightarrow> probe_spec us r A \<Longrightarrow> probe_spec (u # us) r ((u, a) # A)"
  by (cases "A = []") (auto simp: probe_spec_def dest: succeeds_not_fails)

lemma probe_loop_advance:
  assumes step: "probe_attempt env u
        (w\<lparr>trace := trace w @ [Log INFO ''Testing YouTube access #{i}: {url}'']\<rparr>) =
      (Inr False,
       w\<lparr>trace := trace w @ Log INFO ''Testing YouTube access #{i}: {url}'' #
          Extract_info Quiet_opts u a # L\<rparr>)"
    and a: "a = extract_info_result env
        (w\<lparr>trace := trace w @ [Log INFO ''Testing YouTube access #{i}: {url}'']\<rparr>)
        Quiet_opts u"
      "extraction_fails a"
    and L: "answers_from env w1 D' \<Longrightarrow> answers_from env
        (w\<lparr>trace := trace w @ [Log INFO ''Testing YouTube access #{i}: {url}'',
           Extract_info Quiet_opts u a]\<rparr>) (L @ D')"
      "attempts L = []"
    and w1: "w1 = w\<lparr>trace := trace w @ Log INFO ''Testing YouTube access #{i}: {url}'' #
          Extract_info Quiet_opts u a # L\<rparr>"
    and IH: "snd (probe_loop env us w1) = w1\<lparr>trace := trace w1 @ D'\<rparr>"
      "answers_from env w1 D'"
      "probe_spec us (fst (probe_loop env us w1)) (attempts D')"
  shows "\<exists>D. snd (probe_loop env (u # us) w) = w\<lparr>trace := trace w @ D\<rparr> \<and>
    answers_from env w D \<and>
    probe_spec (u # us) (fst (probe_loop env (u # us) w)) (attempts D)"
proof -
  let ?D = "Log INFO ''Testing YouTube access #{i}: {url}'' #
     Extract_info Quiet_opts u a # L @ D'"
  have run: "probe_loop env (u # us) w = probe_loop env us w1"
    by (simp add: probe_loop_Cons step w1 del: probe_loop.simps)
  have "snd (probe_loop env (u # us) w) = w\<lparr>trace := trace w @ ?D\<rparr>"
    unfolding run IH(1) by (simp add: w1)
  moreover have "answers_from env w ?D"
    using L(1) [OF IH(2)] a(1) by simp
  moreover have "probe_spec (u # us) (fst (probe_loop env (u # us) w)) (attempts ?D)"
    using probe_spec_advance [OF a(2) IH(3), of u]
    unfolding run by (simp add: attempts_append L(2))
  ultimately show ?thesis by blast
qed

lemma probe_loop_run:
  "\<exists>D. snd (probe_loop env us w) = w\<lparr>trace := trace w @ D\<rparr> \<and>
        answers_from env w D \<and>
        probe_spec us (fst (probe_loop env us w)) (attempts D)"
proof (induction us arbitrary: w)
  case Nil
  have "snd (probe_loop env [] w) =
      w\<lparr>trace := trace w @ [Log ERROR ''All YouTube access tests failed!'']\<rparr> \<and>
    answers_from env w [Log ERROR ''All YouTube access tests failed!''] \<and>
    probe_spec [] (fst (probe_loop env [] w))
      (attempts [Log ERROR ''All YouTube access tests failed!''])"
    by (simp add: io_defs probe_spec_def)
  then show ?case by blast
next
  case (Cons u us)
  let ?T = "Log INFO ''Testing YouTube access #{i}: {url}''"
  let ?w0 = "w\<lparr>trace := trace w @ [?T]\<rparr>"
  let ?a = "extract_info_result env ?w0 Quiet_opts u"
  show ?case
  proof (cases ?a)
    case (Inl e)
    show ?thesis
    proof (cases e)
      case (Exception msg)
      let ?L = "[Log ERROR ''Test #{i} FAILED: {str(e)}'']"
      let ?w1 = "w\<lparr>trace := trace w @ ?T # Extract_info Quiet_opts u ?a # ?L\<rparr>"
      from Inl Exception
      have step: "probe_attempt env u ?w0 = (Inr False, ?w1)"
        by (simp add: probe_attempt_cases)
      from Inl Exception have f: "extraction_fails ?a" by simp
      from Cons.IH [of ?w1] obtain D' where
        IH: "snd (probe_loop env us ?w1) = ?w1\<lparr>trace := trace ?w1 @ D'\<rparr>"
          "answers_from env ?w1 D'"
          "probe_spec us (fst (probe_loop env us ?w1)) (attempts D')"
        by blast
      show ?thesis
        by (rule probe_loop_advance [OF step refl f _ _ refl IH]) simp_all
    next
      case KeyboardInterrupt
      let ?D = "[?T, Extract_info Quiet_opts u (Inl KeyboardInterrupt)]"
      from Inl KeyboardInterrupt
      have "snd (probe_loop env (u # us) w) = w\<lparr>trace := trace w @ ?D\<rparr> \<and>
        answers_from env w ?D \<and>
        probe_spec (u # us) (fst (probe_loop env (u # us) w)) (attempts ?D)"
        by (simp add: probe_loop_Cons probe_attempt_cases probe_spec_def del: probe_loop.simps)
      then show ?thesis by blast
    qed
  next
    case (Inr i)
    show ?thesis
    proof (cases i)
      case None
      let ?L = "[Log INFO ''Test #{i} SUCCESS:'', Log ERROR ''Test #{i} FAILED: {str(e)}'']"
      let ?w1 = "w\<lparr>trace := trace w @ ?T # Extract_info Quiet_opts u ?a # ?L\<rparr>"
      from Inr None
      have step: "probe_attempt env u ?w0 = (Inr False, ?w1)"
        by (simp add: probe_attempt_cases)
      from Inr None have f: "extraction_fails ?a" by simp
      from Cons.IH [of ?w1] obtain D' where
        IH: "snd (probe_loop env us ?w1) = ?w1\<lparr>trace := trace ?w1 @ D'\<rparr>"
          "answers_from env ?w1 D'"
          "probe_spec us (fst (probe_loop env us ?w1)) (attempts D')"
        by blast
      show ?thesis
        by (rule probe_loop_advance [OF step refl f _ _ refl IH]) simp_all
    next
      case (Some j)
      let ?D = "[?T, Extract_info Quiet_opts u (Inr (Some j)), Log INFO ''Test #{i} SUCCESS:'',
         Log INFO ''   Title: {info.get(title, Unknown)}'',
         Log INFO ''   Duration: {info.get(duration, Unknown)} seconds'',
         Log INFO ''   Uploader: {info.get(uploader, Unknown)}'']"
      from Inr Some
      have "snd (probe_loop env (u # us) w) = w\<lparr>trace := trace w @ ?D\<rparr> \<and>
        answers_from env w ?D \<and>
        probe_spec (u # us) (fst (probe_loop env (u # us) w)) (attempts ?D)"
        by (simp add: probe_loop_Cons probe_attempt_cases probe_spec_def del: probe_loop.simps)
      then show ?thesis by blast
    qed
  qed
qed

text \<open>
  C4. For every sequence of probe URLs \<open>us\<close>, every environment and every world, the
  loop of \<open>test_youtube_access\<close> changes nothing but the trace; each call of
  \<open>extract_info\<close> in what it appends carries the answer of the environment in the world
  of the call; it attempts a prefix of \<open>us\<close>, in order; every attempt but the last one
  failed, so after a failure it goes on to the next URL; it returns \<open>True\<close> exactly when
  its last attempt succeeded, so no URL after the first success is attempted; it returns
  \<open>False\<close> exactly when it attempted every URL and each attempt failed; it raises an
  interrupt exactly when its last attempt was interrupted, and it raises nothing else.
\<close>

theorem probe_short_circuits:
  "let r = fst (probe_loop env us w);
       D = new_events (probe_loop env us) w;
       A = attempts D
   in snd (probe_loop env us w) = w\<lparr>trace := trace w @ D\<rparr> \<and>
      answers_from env w D \<and>
      map fst A = take (length A) us \<and>
      list_all (\<lambda>a. extraction_fails (snd a)) (butlast A) \<and>
      (r = Inr True \<longleftrightarrow> A \<noteq> [] \<and> extraction_succeeds (snd (last A))) \<and>
      (r = Inr False \<longleftrightarrow>
         length A = length us \<and> list_all (\<lambda>a. extraction_fails (snd a)) A) \<and>
      (r = Inl KeyboardInterrupt \<longleftrightarrow> A \<noteq> [] \<and> snd (last A) = Inl KeyboardInterrupt) \<and>
      (\<forall>msg. r \<noteq> Inl (Exception msg))"
proof -
  from probe_loop_run [of env us w] obtain D where
    D: "snd (probe_loop env us w) = w\<lparr>trace := trace w @ D\<rparr>"
      "answers_from env w D" "probe_spec us (fst (probe_loop env us w)) (attempts D)"
    by blast
  from D(1) have "new_events (probe_loop env us) w = D" by (simp add: new_events_def)
  with D show ?thesis by (simp add: probe_spec_def Let_def)
qed

lemma probe_first_reachable:
  "attempts (new_events (probe_loop env_ok test_urls) world_ready) =
     [(''https://www.youtube.com/watch?v=dQw4w9WgXcQ'', Inr (Some some_info))]"
  by (simp add: new_events_def test_urls_def probe_attempt_def ydl_extract_info_def
      info_get_def io_defs env_ok_def world_ready_def Let_def)

theorem probe_short_circuits_witness:
  "attempts (new_events (probe_loop env_ok test_urls) world_ready) =
     [(''https://www.youtube.com/watch?v=dQw4w9WgXcQ'', Inr (Some some_info))] \<and>
   fst (probe_loop env_ok test_urls world_ready) = Inr True"
  using probe_short_circuits [where env = env_ok and us = test_urls and w = world_ready]
    probe_first_reachable
  by (simp add: Let_def)

section \<open>The delay between downloads\<close>

lemma schedule_Cons:
  "schedule (v # vs) =
     Invoke (Download_video v) # (if vs = [] then [] else Sleep 10 None # schedule vs)"
  by (cases vs) simp_all

lemma filter_absent: "list_all (\<lambda>e. \<not> P e) D \<Longrightarrow> filter P D = []"
  by (simp add: list_all_iff filter_empty_conv)

lemma emits_entry:
  assumes "only P k"
  shows "emits (then_io (emit ev) k) (\<lambda>r D. D \<noteq> [] \<and> hd D = ev \<and> list_all P (tl D))"
  by (rule emits_then [OF emits_emit only_emits [OF assms],
        where Q = "\<lambda>r D. D = [ev]"]) simp_all

lemma download_video_emits_step:
  "emits (download_video env d v q) (\<lambda>r D. filter is_step D = [Invoke (Download_video v)])"
proof -
  have "emits (download_video env d v q)
     (\<lambda>r D. D \<noteq> [] \<and> hd D = Invoke (Download_video v) \<and> list_all (\<lambda>e. \<not> is_step e) (tl D))"
    unfolding download_video_def download_opts_def
    by (rule emits_entry) (intro only_intros only_find_downloaded, simp_all)
  then show ?thesis
  proof (rule emits_weaken)
    fix r :: "exc + path option" and D
    assume "D \<noteq> [] \<and> hd D = Invoke (Download_video v) \<and> list_all (\<lambda>e. \<not> is_step e) (tl D)"
    then show "filter is_step D = [Invoke (Download_video v)]"
      by (cases D) (simp_all add: filter_absent)
  qed
qed

lemma delete_downloaded_emits_step:
  "emits (delete_downloaded env f) (\<lambda>r D. filter is_step D = [])"
proof -
  have "only (\<lambda>e. \<not> is_step e) (delete_downloaded env f)"
    by (rule only_delete_downloaded) simp_all
  then show ?thesis
    unfolding only_def by (rule emits_weaken) (simp add: filter_absent)
qed

lemma wait_between_emits_step:
  "emits (wait_between env i n)
     (\<lambda>r D. r = Inr () \<longrightarrow> filter is_step D = (if i < n then [Sleep 10 None] else []))"
  by (rule emits_by_new_events)
     (simp add: new_events_def wait_between_def time_sleep_def io_defs Let_def
       split: option.splits)

lemma download_loop_emits_schedule:
  "i + length vs = Suc n \<Longrightarrow>
   emits (download_loop env d i n vs) (\<lambda>r D. r = Inr () \<longrightarrow> filter is_step D = schedule vs)"
proof (induction vs arbitrary: i)
  case Nil
  show ?case by (simp add: emits_return)
next
  case (Cons v vs)
  from Cons.prems have i: "i < n \<longleftrightarrow> vs \<noteq> []" and n: "Suc i + length vs = Suc n"
    by auto
  let ?S = "\<lambda>(r::exc + unit) D. r = Inr () \<longrightarrow>
              filter is_step D = (if vs = [] then [] else Sleep 10 None # schedule vs)"
  have t4: "emits (then_io (wait_between env i n) (download_loop env d (Suc i) n vs)) ?S"
    by (rule emits_then [OF wait_between_emits_step Cons.IH [OF n]]) (auto simp: i)
  have t3: "\<And>f. emits (then_io (delete_downloaded env f)
              (then_io (wait_between env i n) (download_loop env d (Suc i) n vs))) ?S"
    by (rule emits_then [OF delete_downloaded_emits_step t4]) auto
  have t2: "emits (bind_io (download_video env d v True) (\<lambda>f.
              then_io (delete_downloaded env f)
              (then_io (wait_between env i n) (download_loop env d (Suc i) n vs))))
      (\<lambda>r D. r = Inr () \<longrightarrow> filter is_step D = schedule (v # vs))"
    by (rule emits_bind [OF download_video_emits_step t3]) (auto simp: schedule_Cons)
  have log: "\<And>s. emits (logger INFO s) (\<lambda>r D. filter is_step D = [])"
    by (simp add: emits_logger)
  have t1: "emits (then_io (logger INFO ''URL: {video_url}'')
      (bind_io (download_video env d v True) (\<lambda>f.
              then_io (delete_downloaded env f)
              (then_io (wait_between env i n) (download_loop env d (Suc i) n vs)))))
      (\<lambda>r D. r = Inr () \<longrightarrow> filter is_step D = schedule (v # vs))"
    by (rule emits_then [OF log t2]) auto
  show ?case
    unfolding download_loop.simps
    by (rule emits_then [OF log t1]) auto
qed

lemma run_downloads_emits_schedule:
  "emits (run_downloads env d vs) (\<lambda>r D. r = Inr () \<longrightarrow> filter is_step D = schedule vs)"
proof -
  have loop: "emits (download_loop env d 1 (length vs) vs)
      (\<lambda>r D. r = Inr () \<longrightarrow> filter is_step D = schedule vs)"
    by (rule download_loop_emits_schedule) simp
  have fin: "emits (logger INFO ''All downloads completed!'') (\<lambda>r D. filter is_step D = [])"
    by (simp add: emits_logger)
  show ?thesis
    unfolding run_downloads_def by (rule emits_then [OF loop fin]) auto
qed

text \<open>
  C8. For every download list, when the loop runs to its end, the downloads and the
  sleeps alternate: each item but the last is followed by one sleep of the fixed 10
  seconds, and nothing follows the last item.
\<close>

theorem delay_between_consecutive_items:
  "fst (run_downloads env d vs w) = Inr () \<Longrightarrow>
   filter is_step (new_events (run_downloads env d vs) w) = schedule vs"
  using emits_new_events [OF run_downloads_emits_schedule [of env d vs], where w = w]
  by simp


lemma download_video_blocked:
  "download_video env_blocked d u q w =
     (Inr None,
      w\<lparr>trace := trace w @
         [Invoke (Download_video u), Log INFO ''Starting download: {url}'',
          Extract_info (download_opts d q) u (Inl (Exception ''blocked'')),
          Log ERROR ''Download failed: {str(e)}'']\<rparr>)"
  by (simp add: download_video_def ydl_extract_info_def io_defs env_blocked_def env_ok_def
      Let_def)

lemma run_downloads_blocked:
  "fst (run_downloads env_blocked the_downloader test_videos world_ready) = Inr ()"
proof -
  have "sleep_result env_blocked = (\<lambda>w n. None)"
    by (simp add: env_blocked_def env_ok_def)
  then show ?thesis
    by (simp add: run_downloads_def test_videos_def download_video_blocked
        delete_downloaded_def truthy_def wait_between_def time_sleep_def io_defs Let_def)
qed

theorem delay_between_consecutive_items_witness:
  "fst (run_downloads env_blocked the_downloader test_videos world_ready) = Inr () \<and>
   filter is_step
     (new_events (run_downloads env_blocked the_downloader test_videos) world_ready) =
     [Invoke (Download_video ''https://www.youtube.com/watch?v=dQw4w9WgXcQ''),
      Sleep 10 None,
      Invoke (Download_video ''https://www.youtube.com/watch?v=jNQXAC9IVRw'')]"
  using delay_between_consecutive_items
    [where env = env_blocked and d = the_downloader and vs = test_videos and w = world_ready]
    run_downloads_blocked
  by (simp add: test_videos_def)

section \<open>What \<open>download_video\<close> returns\<close>

lemma Log_cong: "l = l' \<Longrightarrow> Log l s = Log l' s"
  by simp

lemma logger_cong: "l = l' \<Longrightarrow> logger l s = logger l' s"
  by simp

lemmas dv_defs = download_video_def after_download_def io_defs ydl_extract_info_def
  ydl_download_def info_get_def Let_def new_events_def

lemma download_video_dichotomy:
  "(\<exists>w4. fs_root w4 = fs_root w \<and>
      download_video env self u q w = after_download env self w4) \<or>
   ((\<forall>p. fst (download_video env self u q w) \<noteq> Inr (Some p)) \<and>
    Download (download_opts self q) u None
      \<notin> set (new_events (download_video env self u q) w))"
proof -
  let ?opts = "download_opts self q"
  let ?w1 = "w\<lparr>trace := trace w @
               [Invoke (Download_video u), Log INFO ''Starting download: {url}'']\<rparr>"
  let ?a = "extract_info_result env ?w1 ?opts u"
  show ?thesis
  proof (cases ?a)
    case (Inl e)
    then show ?thesis
      by (cases e) (simp_all add: dv_defs cong: Log_cong logger_cong)
  next
    case (Inr io)
    show ?thesis
    proof (cases io)
      case None
      with Inr show ?thesis
        by (simp add: dv_defs cong: Log_cong logger_cong)
    next
      case (Some i)
      let ?w3 = "w\<lparr>trace := trace w @
               [Invoke (Download_video u), Log INFO ''Starting download: {url}'',
                Extract_info ?opts u (Inr (Some i)),
                Log INFO ''Video Info:'',
                Log INFO ''   Title: {info.get(title, Unknown)}'',
                Log INFO ''   Duration: {info.get(duration, Unknown)} seconds'',
                Log INFO ''   Uploader: {info.get(uploader, Unknown)}'',
                Log INFO ''   View Count: {info.get(view_count, Unknown)}'',
                Log INFO ''Starting download...'']\<rparr>"
      let ?r = "download_result env ?w3 ?opts u"
      show ?thesis
      proof (cases ?r)
        case None
        have "download_video env self u q w =
            after_download env self
              (?w3\<lparr>fs_entries := download_writes env ?w3 ?opts u,
                    trace := trace ?w3 @ [Download ?opts u None]\<rparr>)"
          using Inr Some None by (simp add: dv_defs cong: Log_cong logger_cong)
        then show ?thesis by (intro disjI1 exI conjI) (auto)
      next
        case (Some e)
        with Inr \<open>io = Some i\<close> show ?thesis
          by (cases e) (simp_all add: dv_defs cong: Log_cong logger_cong)
      qed
    qed
  qed
qed

lemma is_entry_trace: "is_entry (w\<lparr>trace := t\<rparr>) p = is_entry w p"
  by (cases "fs_entries w") (simp_all add: is_entry_def)

lemma find_downloaded_hidden:
  "list_all startswith_dot names \<Longrightarrow>
   find_downloaded env self names w =
     (Inr None, w\<lparr>trace := trace w @ [Log ERROR ''Downloaded file not found!'']\<rparr>)"
  by (induction names) (simp_all add: io_defs)

lemma find_downloaded_visible:
  "find (\<lambda>f. \<not> startswith_dot f) names = Some f \<Longrightarrow>
   is_entry w (os_path_join (download_dir self) f) \<Longrightarrow>
   getsize_result env w (os_path_join (download_dir self) f) = Inr n \<Longrightarrow>
   fst (find_downloaded env self names w) = Inr (Some (os_path_join (download_dir self) f))"
  by (induction names)
     (simp_all add: io_defs os_path_getsize_def Let_def is_entry_trace split: if_splits)

lemma find_downloaded_fs: "fs_state (snd (find_downloaded env self names w)) = fs_state w"
  by (induction names)
     (simp_all add: io_defs os_path_getsize_def Let_def fs_state_def split: sum.splits)

lemma find_downloaded_Some:
  "fst (find_downloaded env self names w) = Inr (Some p) \<Longrightarrow>
   \<exists>f\<in>set names. p = os_path_join (download_dir self) f"
  by (induction names)
     (auto simp: io_defs os_path_getsize_def Let_def split: if_splits sum.splits)

lemma after_download_fs: "fs_state (snd (after_download env self w)) = fs_state w"
proof (cases "fs_entries w")
  case None
  then show ?thesis
    by (simp add: after_download_def os_listdir_def io_defs fs_state_def)
next
  case (Some names)
  show ?thesis
  proof (cases "download_dir self = fs_root w")
    case False
    with Some show ?thesis
      by (simp add: after_download_def os_listdir_def io_defs fs_state_def)
  next
    case True
    let ?w = "w\<lparr>trace := trace w @ [Listdir (fs_root w)]\<rparr>"
    obtain r w' where f: "find_downloaded env self names ?w = (r, w')"
      by (cases "find_downloaded env self names ?w")
    with find_downloaded_fs [of env self names ?w]
    have "fs_state w' = fs_state w" by (simp add: fs_state_def)
    with Some True f show ?thesis
      by (cases r rule: sum.exhaust [case_names Inl Inr])
         (auto simp: after_download_def os_listdir_def io_defs fs_state_def
           split: exc.splits)
  qed
qed

lemma after_download_unlisted:
  "fs_entries w = None \<or> download_dir self \<noteq> fs_root w \<Longrightarrow>
   after_download env self w =
     (Inr None, w\<lparr>trace := trace w @
        [Listdir (download_dir self), Log ERROR ''Download failed: {str(e)}'']\<rparr>)"
  by (cases "fs_entries w") (auto simp: after_download_def os_listdir_def io_defs)

lemma after_download_listed:
  "fs_entries w = Some names \<Longrightarrow> download_dir self = fs_root w \<Longrightarrow>
   after_download env self w =
     try_except_Exception (find_downloaded env self names)
       (\<lambda>e. then_io (logger ERROR ''Download failed: {str(e)}'') (return_io None))
       (w\<lparr>trace := trace w @ [Listdir (fs_root w)]\<rparr>)"
  by (simp add: after_download_def os_listdir_def bind_io_def then_io_def emit_def
      try_except_Exception_def)

lemma after_download_hidden:
  "fs_entries w = Some names \<Longrightarrow> download_dir self = fs_root w \<Longrightarrow>
   list_all startswith_dot names \<Longrightarrow>
   after_download env self w =
     (Inr None, w\<lparr>trace := trace w @
        [Listdir (fs_root w), Log ERROR ''Downloaded file not found!'']\<rparr>)"
  by (simp add: after_download_listed find_downloaded_hidden try_except_Exception_def)

lemma after_download_no_visible:
  "no_visible_file (fs_entries w) \<Longrightarrow> fst (after_download env self w) = Inr None"
proof (cases "fs_entries w = None \<or> download_dir self \<noteq> fs_root w")
  case True
  then show ?thesis by (simp add: after_download_unlisted)
next
  case False
  moreover assume "no_visible_file (fs_entries w)"
  ultimately show ?thesis
    by (auto simp: no_visible_file_def after_download_hidden)
qed

lemma find_Some_mem: "find P xs = Some x \<Longrightarrow> x \<in> set xs"
  by (induction xs) (auto split: if_splits)

lemma after_download_visible:
  assumes "fs_entries w = Some names" "download_dir self = fs_root w"
    "find (\<lambda>f. \<not> startswith_dot f) names = Some f"
    and size: "\<And>w'. getsize_result env w' (os_path_join (download_dir self) f) = Inr n"
  shows "fst (after_download env self w) = Inr (Some (os_path_join (download_dir self) f))"
proof -
  let ?w = "w\<lparr>trace := trace w @ [Listdir (fs_root w)]\<rparr>"
  from assms have "is_entry ?w (os_path_join (download_dir self) f)"
    by (auto simp: is_entry_def list_ex_iff dest: find_Some_mem)
  from find_downloaded_visible [OF assms(3) this size]
  show ?thesis
    by (cases "find_downloaded env self names ?w")
       (simp add: after_download_listed [OF assms(1,2)] try_except_Exception_def)
qed

lemma after_download_Some:
  assumes "fst (after_download env self w) = Inr (Some p)"
  shows "\<exists>names f. fs_entries w = Some names \<and> f \<in> set names \<and>
           download_dir self = fs_root w \<and> p = os_path_join (fs_root w) f"
proof (cases "fs_entries w = None \<or> download_dir self \<noteq> fs_root w")
  case True
  with assms show ?thesis by (simp add: after_download_unlisted)
next
  case False
  then obtain names where n: "fs_entries w = Some names" "download_dir self = fs_root w"
    by auto
  let ?w = "w\<lparr>trace := trace w @ [Listdir (fs_root w)]\<rparr>"
  obtain r w' where f: "find_downloaded env self names ?w = (r, w')"
    by (cases "find_downloaded env self names ?w")
  with assms n have "r = Inr (Some p)"
    by (auto simp: after_download_listed io_defs split: sum.splits exc.splits)
  with f find_downloaded_Some [of env self names ?w p] n show ?thesis by auto
qed

lemma after_download_trace:
  "\<exists>D. trace (snd (after_download env self w)) = trace w @ D"
proof -
  have "only (\<lambda>e. True) (after_download env self)"
    unfolding after_download_def
    by (intro only_intros only_find_downloaded) simp_all
  then show ?thesis by (auto simp: only_def emits_def)
qed

lemma download_video_completes:
  assumes a: "\<And>w'. extract_info_result env w' (download_opts self q) u = Inr (Some i)"
    and r: "\<And>w'. download_result env w' (download_opts self q) u = None"
  shows "\<exists>w3 w4. fs_state w3 = fs_state w \<and>
     fs_state w4 = (fs_root w, download_writes env w3 (download_opts self q) u) \<and>
     download_video env self u q w = after_download env self w4 \<and>
     Download (download_opts self q) u None
       \<in> set (new_events (download_video env self u q) w)"
proof -
  let ?opts = "download_opts self q"
  let ?w3 = "w\<lparr>trace := trace w @
               [Invoke (Download_video u), Log INFO ''Starting download: {url}'',
                Extract_info ?opts u (Inr (Some i)),
                Log INFO ''Video Info:'',
                Log INFO ''   Title: {info.get(title, Unknown)}'',
                Log INFO ''   Duration: {info.get(duration, Unknown)} seconds'',
                Log INFO ''   Uploader: {info.get(uploader, Unknown)}'',
                Log INFO ''   View Count: {info.get(view_count, Unknown)}'',
                Log INFO ''Starting download...'']\<rparr>"
  let ?w4 = "?w3\<lparr>fs_entries := download_writes env ?w3 ?opts u,
                    trace := trace ?w3 @ [Download ?opts u None]\<rparr>"
  have run: "download_video env self u q w = after_download env self ?w4"
    by (simp add: dv_defs a r cong: Log_cong logger_cong)
  from after_download_trace [of env self ?w4]
  obtain D where "trace (snd (after_download env self ?w4)) = trace ?w4 @ D" by blast
  then have "Download ?opts u None \<in> set (new_events (download_video env self u q) w)"
    by (simp add: run new_events_def)
  moreover have "fs_state ?w3 = fs_state w"
    "fs_state ?w4 = (fs_root w, download_writes env ?w3 ?opts u)"
    by (simp_all add: fs_state_def)
  ultimately show ?thesis using run by blast
qed

lemma env_no_file_simps:
  "extract_info_result env_no_file w' opts u = Inr (Some some_info)"
  "download_result env_no_file w' opts u = None"
  "download_writes env_no_file w' opts u = fs_entries w'"
  "getsize_result env_no_file w' p = Inr 1048576"
  by (simp_all add: env_no_file_def env_ok_def)

lemma env_ok_simps:
  "extract_info_result env_ok w' opts u = Inr (Some some_info)"
  "download_result env_ok w' opts u = None"
  "download_writes env_ok w' opts u = Some [''video.mp4'']"
  "remove_fails env_ok w' p = None"
  "getsize_result env_ok w' p = Inr 1048576"
  by (simp_all add: env_ok_def)

lemma env_locked_simps:
  "extract_info_result env_locked w' opts u = Inr (Some some_info)"
  "download_result env_locked w' opts u = None"
  "download_writes env_locked w' opts u = Some [''video.mp4'']"
  "remove_fails env_locked w' p = Some ''PermissionError''"
  "getsize_result env_locked w' p = Inr 1048576"
  by (simp_all add: env_locked_def env_ok_def)

lemma no_file_run:
  "Download (download_opts the_downloader True) u None
     \<in> set (new_events (download_video env_no_file the_downloader u True) w) \<and>
   fs_entries (snd (download_video env_no_file the_downloader u True w)) = fs_entries w"
proof -
  from download_video_completes [of env_no_file the_downloader True u some_info w]
  obtain w3 w4 where
    "fs_state w3 = fs_state w"
    "fs_state w4 = (fs_root w, download_writes env_no_file w3 (download_opts the_downloader True) u)"
    "download_video env_no_file the_downloader u True w = after_download env_no_file the_downloader w4"
    "Download (download_opts the_downloader True) u None
       \<in> set (new_events (download_video env_no_file the_downloader u True) w)"
    by (auto simp: env_no_file_simps)
  moreover from this after_download_fs [of env_no_file the_downloader w4]
  have "fs_entries (snd (download_video env_no_file the_downloader u True w)) = fs_entries w"
    by (simp add: fs_state_def env_no_file_simps)
  ultimately show ?thesis by simp
qed

lemma download_video_one_file:
  assumes a: "\<And>w'. extract_info_result env w' (download_opts self q) u = Inr (Some i)"
    and r: "\<And>w'. download_result env w' (download_opts self q) u = None"
    and wr: "\<And>w'. download_writes env w' (download_opts self q) u = Some [g]"
    and g: "\<not> startswith_dot g" and d: "download_dir self = fs_root w"
    and size: "\<And>w'. getsize_result env w' (os_path_join (download_dir self) g) = Inr n"
  shows "fst (download_video env self u q w) = Inr (Some (os_path_join (download_dir self) g)) \<and>
    fs_state (snd (download_video env self u q w)) = (fs_root w, Some [g])"
proof -
  from download_video_completes [of env self q u i w, OF a r]
  obtain w4 where w4: "fs_state w4 = (fs_root w, Some [g])"
    "download_video env self u q w = after_download env self w4"
    by (auto simp: wr)
  then have e: "fs_entries w4 = Some [g]" "download_dir self = fs_root w4"
    by (simp_all add: fs_state_def d)
  have "find (\<lambda>f. \<not> startswith_dot f) [g] = Some g" using g by simp
  from after_download_visible [OF e this size] after_download_fs [of env self w4] w4
  show ?thesis by simp
qed

lemma one_file_ok:
  "fst (download_video env_ok the_downloader u True world_ready) =
     Inr (Some ''/tmp/tmpdl/video.mp4'') \<and>
   fs_state (snd (download_video env_ok the_downloader u True world_ready)) =
     (''/tmp/tmpdl'', Some [''video.mp4''])"
  using download_video_one_file [where env = env_ok and self = the_downloader and q = True
      and u = u and g = "''video.mp4''" and w = world_ready and i = some_info
      and n = 1048576]
  by (simp add: env_ok_simps startswith_dot_def the_downloader_def world_ready_def
      os_path_join_def)

lemma one_file_locked:
  "fst (download_video env_locked the_downloader u True world_ready) =
     Inr (Some ''/tmp/tmpdl/video.mp4'') \<and>
   fs_state (snd (download_video env_locked the_downloader u True world_ready)) =
     (''/tmp/tmpdl'', Some [''video.mp4''])"
  using download_video_one_file [where env = env_locked and self = the_downloader and q = True
      and u = u and g = "''video.mp4''" and w = world_ready and i = some_info
      and n = 1048576]
  by (simp add: env_locked_simps startswith_dot_def the_downloader_def world_ready_def
      os_path_join_def)

lemma download_video_Some:
  assumes "download_video env self u q w = (Inr (Some p), w1)"
  shows "\<exists>names f. fs_entries w1 = Some names \<and> f \<in> set names \<and>
           p = os_path_join (fs_root w1) f"
proof -
  from download_video_dichotomy [of w env self u q] assms
  obtain w4 where w4: "download_video env self u q w = after_download env self w4"
    by auto
  with assms have "fst (after_download env self w4) = Inr (Some p)" by simp
  from after_download_Some [OF this] obtain names f where
    "fs_entries w4 = Some names" "f \<in> set names" "p = os_path_join (fs_root w4) f"
    by blast
  moreover from w4 assms have "snd (after_download env self w4) = w1"
    by (metis snd_conv)
  with after_download_fs [of env self w4] have "fs_state w1 = fs_state w4" by simp
  ultimately show ?thesis by (auto simp: fs_state_def)
qed

text \<open>
  C5. For every URL: if the library's \<open>download\<close> call inside \<open>download_video\<close>
  returned without raising and the directory holds no visible file afterwards, then
  \<open>download_video\<close> returns \<open>None\<close>, not a path; and when the directory exists, its
  last log record is the error "Downloaded file not found!".
\<close>

theorem no_artifact_is_a_failure:
  assumes "Download (download_opts self q) u None
             \<in> set (new_events (download_video env self u q) w)"
    and "no_visible_file (fs_entries (snd (download_video env self u q w)))"
  shows "fst (download_video env self u q w) = Inr None \<and>
    (fs_entries (snd (download_video env self u q w)) \<noteq> None \<and>
     download_dir self = fs_root w \<longrightarrow>
       last (trace (snd (download_video env self u q w))) =
         Log ERROR ''Downloaded file not found!'')"
proof -
  from download_video_dichotomy [of w env self u q] assms(1)
  obtain w4 where w4: "fs_root w4 = fs_root w"
    "download_video env self u q w = after_download env self w4" by blast
  from after_download_fs [of env self w4] w4
  have fs: "fs_entries (snd (download_video env self u q w)) = fs_entries w4"
    by (simp add: fs_state_def)
  with assms(2) have nv: "no_visible_file (fs_entries w4)" by simp
  then have "fst (download_video env self u q w) = Inr None"
    by (simp add: w4 after_download_no_visible)
  moreover have "last (trace (snd (download_video env self u q w))) =
         Log ERROR ''Downloaded file not found!''"
    if "fs_entries (snd (download_video env self u q w)) \<noteq> None"
      "download_dir self = fs_root w"
  proof -
    from that fs obtain names where "fs_entries w4 = Some names" by auto
    with nv that w4 show ?thesis
      by (simp add: no_visible_file_def after_download_hidden)
  qed
  ultimately show ?thesis by blast
qed

theorem no_artifact_is_a_failure_witness:
  "Download (download_opts the_downloader True) ''https://www.youtube.com/watch?v=dQw4w9WgXcQ'' None
     \<in> set (new_events (download_video env_no_file the_downloader
                ''https://www.youtube.com/watch?v=dQw4w9WgXcQ'' True) world_ready) \<and>
   fst (download_video env_no_file the_downloader
          ''https://www.youtube.com/watch?v=dQw4w9WgXcQ'' True world_ready) = Inr None \<and>
   last (trace (snd (download_video env_no_file the_downloader
          ''https://www.youtube.com/watch?v=dQw4w9WgXcQ'' True world_ready))) =
     Log ERROR ''Downloaded file not found!''"
  using no_artifact_is_a_failure [where env = env_no_file and self = the_downloader
      and u = "''https://www.youtube.com/watch?v=dQw4w9WgXcQ''" and q = True
      and w = world_ready]
    no_file_run [of "''https://www.youtube.com/watch?v=dQw4w9WgXcQ''" world_ready]
  by (simp add: no_visible_file_def world_ready_def the_downloader_def)






section \<open>Deleting the downloaded file\<close>

lemma delete_downloaded_cases:
  "delete_downloaded env f w =
    (Inr (),
     if truthy f then
       (let w1 = w\<lparr>trace := trace w @ [Log INFO ''Video #{i} downloaded successfully!'']\<rparr>;
            r = (if \<not> is_entry w (the f) then Some ''FileNotFoundError''
                 else remove_fails env w1 (the f))
        in case r of
             Some msg \<Rightarrow> w1\<lparr>trace := trace w1 @ [Remove (the f) (Some msg)]\<rparr>
           | None \<Rightarrow>
               w1\<lparr>fs_entries :=
                    map_option (filter (\<lambda>g. os_path_join (fs_root w) g \<noteq> the f))
                      (fs_entries w),
                  trace := trace w1 @
                    [Remove (the f) None,
                     Log INFO ''Cleaned up: {os.path.basename(downloaded_file)}'']\<rparr>)
     else w\<lparr>trace := trace w @ [Log ERROR ''Video #{i} download failed!'']\<rparr>)"
  by (simp add: delete_downloaded_def os_remove_def io_defs Let_def is_entry_trace
      split: option.splits)

lemma delete_locked:
  "new_events (delete_downloaded env_locked (Some ''/tmp/tmpdl/video.mp4'')) world_one_file =
     [Log INFO ''Video #{i} downloaded successfully!'',
      Remove ''/tmp/tmpdl/video.mp4'' (Some ''PermissionError'')]"
  by (simp add: delete_downloaded_cases new_events_def truthy_def is_entry_def
      os_path_join_def world_one_file_def env_locked_simps)

text \<open>
  A deletion that fails with a permission error: the call is in the trace, with its
  error, and no warning is.
\<close>

theorem delete_failure_not_logged_counterexample:
  "Remove ''/tmp/tmpdl/video.mp4'' (Some ''PermissionError'')
     \<in> set (new_events (delete_downloaded env_locked (Some ''/tmp/tmpdl/video.mp4''))
              world_one_file) \<and>
   filter is_warning
     (new_events (delete_downloaded env_locked (Some ''/tmp/tmpdl/video.mp4''))
        world_one_file) = []"
  by (simp add: delete_locked)

text \<open>
  C7, as amended. The deletion step of the loop never raises, so whatever follows it
  in the loop (the wait, the next URL) runs from the world it leaves. It never writes a
  log record of level WARNING. When \<open>os.remove\<close> fails, the step adds nothing to the
  trace after the failed call: no log record at all is written for the failure, and the
  filesystem is left as it was.
\<close>

theorem delete_failure_is_swallowed_silently:
  "fst (delete_downloaded env f w) = Inr () \<and>
   then_io (delete_downloaded env f) k w = k (snd (delete_downloaded env f w)) \<and>
   filter is_warning (new_events (delete_downloaded env f) w) = [] \<and>
   (Remove p (Some msg) \<in> set (new_events (delete_downloaded env f) w) \<longrightarrow>
      new_events (delete_downloaded env f) w =
        [Log INFO ''Video #{i} downloaded successfully!'', Remove p (Some msg)] \<and>
      fs_state (snd (delete_downloaded env f w)) = fs_state w)"
  by (auto simp: delete_downloaded_cases new_events_def then_io_def bind_io_def Let_def
      fs_state_def split: option.splits)

theorem delete_failure_is_swallowed_silently_witness:
  "Remove ''/tmp/tmpdl/video.mp4'' (Some ''PermissionError'')
     \<in> set (new_events (delete_downloaded env_locked (Some ''/tmp/tmpdl/video.mp4''))
              world_one_file) \<and>
   fst (delete_downloaded env_locked (Some ''/tmp/tmpdl/video.mp4'') world_one_file) = Inr () \<and>
   fs_state (snd (delete_downloaded env_locked (Some ''/tmp/tmpdl/video.mp4'') world_one_file)) =
     (''/tmp/tmpdl'', Some [''video.mp4''])"
  using delete_failure_is_swallowed_silently [where env = env_locked
      and f = "Some ''/tmp/tmpdl/video.mp4''" and w = world_one_file
      and p = "''/tmp/tmpdl/video.mp4''" and msg = "''PermissionError''"
      and k = "return_io ()"]
    delete_locked
  by (simp add: fs_state_def world_one_file_def)

text \<open>
  When \<open>os.remove\<close> fails, the failure is swallowed and the file stays: after a
  successful download and the deletion step, the directory still holds the file.
\<close>

theorem artifact_survives_failed_delete_counterexample:
  "fst (download_video env_locked the_downloader
          ''https://www.youtube.com/watch?v=dQw4w9WgXcQ'' True world_ready) =
     Inr (Some ''/tmp/tmpdl/video.mp4'') \<and>
   fs_entries (snd (delete_downloaded env_locked (Some ''/tmp/tmpdl/video.mp4'')
       (snd (download_video env_locked the_downloader
               ''https://www.youtube.com/watch?v=dQw4w9WgXcQ'' True world_ready)))) =
     Some [''video.mp4'']"
  using one_file_locked [of "''https://www.youtube.com/watch?v=dQw4w9WgXcQ''"]
  by (simp add: delete_downloaded_cases truthy_def is_entry_def os_path_join_def
      fs_state_def env_locked_simps)

text \<open>
  C1, as amended. For every URL on which \<open>download_video\<close> returns a path that the
  loop takes for a success: if the directory then holds that one entry only, and the
  environment is one where \<open>os.remove\<close> of that path does not fail, then the deletion
  step calls \<open>os.remove\<close> on the path, returns, and leaves the directory empty.
\<close>

theorem workspace_empty_when_remove_succeeds:
  assumes "download_video env self u q w = (Inr (Some p), w1)"
    and "truthy (Some p)"
    and "fs_entries w1 = Some [f]"
    and "\<And>w'. remove_fails env w' p = None"
  shows "fst (delete_downloaded env (Some p) w1) = Inr () \<and>
    new_events (delete_downloaded env (Some p)) w1 =
      [Log INFO ''Video #{i} downloaded successfully!'', Remove p None,
       Log INFO ''Cleaned up: {os.path.basename(downloaded_file)}''] \<and>
    fs_state (snd (delete_downloaded env (Some p) w1)) = (fs_root w1, Some [])"
proof -
  from download_video_Some [OF assms(1)] assms(3)
  have p: "p = os_path_join (fs_root w1) f" by auto
  with assms(3) have e: "is_entry w1 p" by (simp add: is_entry_def)
  from assms(4) have rm: "\<And>w'. remove_fails env w' (os_path_join (fs_root w1) f) = None"
    by (simp add: p)
  from e assms(2) show ?thesis
    by (simp add: delete_downloaded_cases new_events_def Let_def assms(3) rm p fs_state_def)
qed

theorem workspace_empty_when_remove_succeeds_witness:
  "fst (download_video env_ok the_downloader
          ''https://www.youtube.com/watch?v=dQw4w9WgXcQ'' True world_ready) =
     Inr (Some ''/tmp/tmpdl/video.mp4'') \<and>
   fs_entries (snd (download_video env_ok the_downloader
          ''https://www.youtube.com/watch?v=dQw4w9WgXcQ'' True world_ready)) =
     Some [''video.mp4''] \<and>
   fs_state (snd (delete_downloaded env_ok (Some ''/tmp/tmpdl/video.mp4'')
       (snd (download_video env_ok the_downloader
               ''https://www.youtube.com/watch?v=dQw4w9WgXcQ'' True world_ready)))) =
     (''/tmp/tmpdl'', Some [])"
proof -
  let ?u = "''https://www.youtube.com/watch?v=dQw4w9WgXcQ''"
  let ?p = "''/tmp/tmpdl/video.mp4''"
  let ?w1 = "snd (download_video env_ok the_downloader ?u True world_ready)"
  from one_file_ok [of ?u]
  have dv: "download_video env_ok the_downloader ?u True world_ready = (Inr (Some ?p), ?w1)"
    and fs: "fs_entries ?w1 = Some [''video.mp4'']" "fs_root ?w1 = ''/tmp/tmpdl''"
    by (simp_all add: fs_state_def prod_eq_iff)
  have t: "truthy (Some ?p)" by (simp add: truthy_def)
  from one_file_ok [of ?u]
  have f: "fst (download_video env_ok the_downloader ?u True world_ready) = Inr (Some ?p)"
    by simp
  from workspace_empty_when_remove_succeeds [OF dv t fs(1) env_ok_simps(4)] f fs
  show ?thesis by simp
qed

end
